theory Spec2Isabelle
  imports Main "HOL-Library.Word"
begin

unbundle bit_operations_syntax

section \<open>Lexer symbols (lexer\_symbols.go)\<close>

text \<open>
  The Go source enumerates the symbols with \<^verbatim>\<open>iota\<close>, so a symbol is a small
  integer and \<^verbatim>\<open>sym_none\<close> is the zero value of the \<^verbatim>\<open>token\<close> field.
\<close>

type_synonym sym = nat

definition sym_none :: sym where "sym_none = 0"
definition sym_find :: sym where "sym_find = 1"
definition sym_sort :: sym where "sym_sort = 2"
definition sym_group :: sym where "sym_group = 3"
definition sym_distinct :: sym where "sym_distinct = 4"
definition sym_all :: sym where "sym_all = 5"
definition sym_pipe :: sym where "sym_pipe = 6"
definition sym_matching :: sym where "sym_matching = 7"
definition sym_since :: sym where "sym_since = 8"
definition sym_between :: sym where "sym_between = 9"
definition sym_yesterday :: sym where "sym_yesterday = 10"
definition sym_before :: sym where "sym_before = 11"
definition sym_last :: sym where "sym_last = 12"
definition sym_previous :: sym where "sym_previous = 13"
definition sym_ago :: sym where "sym_ago = 14"
definition sym_forever :: sym where "sym_forever = 15"
definition sym_second :: sym where "sym_second = 16"
definition sym_minute :: sym where "sym_minute = 17"
definition sym_hour :: sym where "sym_hour = 18"
definition sym_day :: sym where "sym_day = 19"
definition sym_week :: sym where "sym_week = 20"
definition sym_fortnight :: sym where "sym_fortnight = 21"
definition sym_month :: sym where "sym_month = 22"
definition sym_quarter :: sym where "sym_quarter = 23"
definition sym_year :: sym where "sym_year = 24"
definition sym_century :: sym where "sym_century = 25"
definition sym_monday :: sym where "sym_monday = 26"
definition sym_tuesday :: sym where "sym_tuesday = 27"
definition sym_wednesday :: sym where "sym_wednesday = 28"
definition sym_thursday :: sym where "sym_thursday = 29"
definition sym_friday :: sym where "sym_friday = 30"
definition sym_saturday :: sym where "sym_saturday = 31"
definition sym_sunday :: sym where "sym_sunday = 32"
definition sym_january :: sym where "sym_january = 33"
definition sym_february :: sym where "sym_february = 34"
definition sym_march :: sym where "sym_march = 35"
definition sym_april :: sym where "sym_april = 36"
definition sym_may :: sym where "sym_may = 37"
definition sym_june :: sym where "sym_june = 38"
definition sym_july :: sym where "sym_july = 39"
definition sym_august :: sym where "sym_august = 40"
definition sym_september :: sym where "sym_september = 41"
definition sym_october :: sym where "sym_october = 42"
definition sym_november :: sym where "sym_november = 43"
definition sym_december :: sym where "sym_december = 44"
definition sym_comma :: sym where "sym_comma = 45"
definition sym_lparen :: sym where "sym_lparen = 46"
definition sym_rparen :: sym where "sym_rparen = 47"
definition sym_minus :: sym where "sym_minus = 48"
definition sym_plus :: sym where "sym_plus = 49"
definition sym_equal :: sym where "sym_equal = 50"
definition sym_not_equal :: sym where "sym_not_equal = 51"
definition sym_mul :: sym where "sym_mul = 52"
definition sym_div :: sym where "sym_div = 53"
definition sym_mod :: sym where "sym_mod = 54"
definition sym_less_equal :: sym where "sym_less_equal = 55"
definition sym_greater_equal :: sym where "sym_greater_equal = 56"
definition sym_less :: sym where "sym_less = 57"
definition sym_greater :: sym where "sym_greater = 58"
definition sym_and :: sym where "sym_and = 59"
definition sym_or :: sym where "sym_or = 60"
definition sym_not :: sym where "sym_not = 61"
definition sym_like :: sym where "sym_like = 62"

lemmas sym_defs =
  sym_none_def sym_find_def sym_sort_def sym_group_def sym_distinct_def sym_all_def
  sym_pipe_def sym_matching_def sym_since_def sym_between_def sym_yesterday_def sym_before_def
  sym_last_def sym_previous_def sym_ago_def sym_forever_def sym_second_def sym_minute_def
  sym_hour_def sym_day_def sym_week_def sym_fortnight_def sym_month_def sym_quarter_def
  sym_year_def sym_century_def sym_monday_def sym_tuesday_def sym_wednesday_def
  sym_thursday_def sym_friday_def sym_saturday_def sym_sunday_def sym_january_def
  sym_february_def sym_march_def sym_april_def sym_may_def sym_june_def sym_july_def
  sym_august_def sym_september_def sym_october_def sym_november_def sym_december_def
  sym_comma_def sym_lparen_def sym_rparen_def sym_minus_def sym_plus_def sym_equal_def
  sym_not_equal_def sym_mul_def sym_div_def sym_mod_def sym_less_equal_def
  sym_greater_equal_def sym_less_def sym_greater_def sym_and_def sym_or_def sym_not_def
  sym_like_def

text \<open>
  Modelled from the spec: the symbol of the keyword \<^verbatim>\<open>AS\<close> ("each field spec is an
  identifier optionally followed by AS alias"). \<^verbatim>\<open>do_derived_field\<close> compares a token
  with \<^verbatim>\<open>sym_as\<close>, but the enumeration above does not declare it, and no rule of the
  lexer tables produces it. It is taken to be one more symbol of the enumeration.
\<close>

definition sym_as :: sym where "sym_as = 63"

text \<open>Lexer token structure, a list of these is passed to the parser.\<close>

record lexer_token =
  tag :: string
  token :: sym
  val :: string
  stmt_pos :: nat

section \<open>Lexer (lexer.go)\<close>

text \<open>
  A Go string is modelled as the list of its bytes. The model is exact on ASCII query
  text (the regular expressions and \<^verbatim>\<open>strings.TrimSpace\<close> of Go work on UTF-8 code
  points, which coincide with bytes there).
\<close>

subsection \<open>Character classes\<close>

definition is_digit :: "char \<Rightarrow> bool" where
  "is_digit c = (c \<in> set ''0123456789'')"

definition is_alpha :: "char \<Rightarrow> bool" where
  "is_alpha c = (c \<in> set ''abcdefghijklmnopqrstuvwxyzABCDEFGHIJKLMNOPQRSTUVWXYZ'')"

text \<open>\<^verbatim>\<open>\w\<close>, the word characters that \<^verbatim>\<open>\b\<close> looks at.\<close>

definition is_word :: "char \<Rightarrow> bool" where
  "is_word c = (is_alpha c \<or> is_digit c \<or> c = CHR ''_'')"

text \<open>\<^verbatim>\<open>[a-zA-Z_]\<close> and \<^verbatim>\<open>[a-zA-Z_.@$]\<close>\<close>

definition is_ident_start :: "char \<Rightarrow> bool" where
  "is_ident_start c = (is_alpha c \<or> c = CHR ''_'')"

definition is_ident_char :: "char \<Rightarrow> bool" where
  "is_ident_char c = (is_alpha c \<or> c \<in> set ''_.@$'')"

definition is_space :: "char \<Rightarrow> bool" where
  "is_space c = (c \<in> set [CHR '' '', CHR 0x09, CHR 0x0A, CHR 0x0B, CHR 0x0C, CHR 0x0D])"

definition TrimSpace :: "string \<Rightarrow> string" where
  "TrimSpace s = rev (dropWhile is_space (rev (dropWhile is_space s)))"

text \<open>Equality of two characters under \<^verbatim>\<open>(?i)\<close>.\<close>

definition lower :: "char \<Rightarrow> char" where
  "lower c =
     (case map_of (zip ''ABCDEFGHIJKLMNOPQRSTUVWXYZ'' ''abcdefghijklmnopqrstuvwxyz'') c of
        Some l \<Rightarrow> l
      | None \<Rightarrow> c)"

definition eq_char :: "bool \<Rightarrow> char \<Rightarrow> char \<Rightarrow> bool" where
  "eq_char ci a b = (if ci then lower a = lower b else a = b)"

text \<open>
  The same two functions on the bits of a character (least significant first), for
  evaluation: an upper-case letter is \<open>010xxxxx\<close> with \<open>xxxxx\<close> from 1 to 26, and its
  lower-case letter has the sixth bit set.
\<close>

lemma lower_bits [code]:
  "lower (Char b0 b1 b2 b3 b4 b5 b6 b7) =
     (if b6 \<and> \<not> b5 \<and> \<not> b7 \<and> (b0 \<or> b1 \<or> b2 \<or> b3 \<or> b4)
           \<and> \<not> (b4 \<and> b3 \<and> (b2 \<or> (b1 \<and> b0)))
      then Char b0 b1 b2 b3 b4 True b6 b7 else Char b0 b1 b2 b3 b4 b5 b6 b7)"
  by (cases b0; cases b1; cases b2; cases b3; cases b4; cases b5; cases b6; cases b7)
     (simp_all add: lower_def)

lemma eq_char_code [code]:
  "eq_char ci a c = (if a = c then True else if ci then lower a = lower c else False)"
  by (simp add: eq_char_def)

subsection \<open>Comments and spacing\<close>

text \<open>
  The three entries of \<^verbatim>\<open>lexer_pre_table\<close>, each replaced by one space wherever it
  matches, from left to right. In Go's syntax a brace that does not open a
  repetition count is a literal brace, so the first pattern \<^verbatim>\<open>//{.}\n\<close> is two
  slashes, an opening brace, any character but a newline, a closing brace and a
  newline; the second, \<^verbatim>\<open>/\*{.|\*}\*/\<close>, is either \<^verbatim>\<open>/*{\<close> and one character but
  a newline, or \<^verbatim>\<open>*}*/\<close>; the third is \<^verbatim>\<open>[\t\r\n]\<close>.
\<close>

definition pre_line_match :: "string \<Rightarrow> bool" where
  "pre_line_match s =
     (length s \<ge> 6 \<and> take 3 s = ''//{'' \<and> s ! 3 \<noteq> CHR 0x0A \<and> s ! 4 = CHR ''}''
       \<and> s ! 5 = CHR 0x0A)"

fun pre_line :: "string \<Rightarrow> string" where
  "pre_line [] = []"
| "pre_line (c # cs) =
     (if pre_line_match (c # cs) then CHR '' '' # pre_line (drop 5 cs)
      else c # pre_line cs)"

definition pre_block_match :: "string \<Rightarrow> bool" where
  "pre_block_match s =
     ((length s \<ge> 4 \<and> take 3 s = ''/*{'' \<and> s ! 3 \<noteq> CHR 0x0A) \<or> take 4 s = ''*}*/'')"

fun pre_block :: "string \<Rightarrow> string" where
  "pre_block [] = []"
| "pre_block (c # cs) =
     (if pre_block_match (c # cs) then CHR '' '' # pre_block (drop 3 cs)
      else c # pre_block cs)"

definition pre_spacing :: "string \<Rightarrow> string" where
  "pre_spacing s =
     map (\<lambda>c. if c = CHR 0x09 \<or> c = CHR 0x0D \<or> c = CHR 0x0A then CHR '' '' else c) s"

subsection \<open>The regular expressions of the token table\<close>

text \<open>
  Every pattern of \<^verbatim>\<open>lexer_regex_table\<close> has one of six shapes. \<open>Kw ci alts wb\<close> is
  \<^verbatim>\<open>^(a1|a2|...)\<close> for literal alternatives, under \<^verbatim>\<open>(?i)\<close> when \<open>ci\<close> holds and
  followed by \<^verbatim>\<open>\b\<close> when \<open>wb\<close> holds. The others are the patterns tagged string,
  ident, int, float and equal.
\<close>

datatype rx = Kw bool "string list" bool | RxString | RxIdent | RxInt | RxFloat | RxEqual

fun prefix_match :: "bool \<Rightarrow> string \<Rightarrow> string \<Rightarrow> bool" where
  "prefix_match ci [] s = True"
| "prefix_match ci (a # as) [] = False"
| "prefix_match ci (a # as) (c # cs) = (eq_char ci a c \<and> prefix_match ci as cs)"

text \<open>\<^verbatim>\<open>\b\<close> at offset \<open>n > 0\<close> of \<open>s\<close>: a word character on exactly one side.\<close>

definition word_boundary :: "string \<Rightarrow> nat \<Rightarrow> bool" where
  "word_boundary s n = (is_word (s ! (n - 1)) \<noteq> (n < length s \<and> is_word (s ! n)))"

text \<open>The alternatives are tried in order; the first that lets the whole pattern match wins.\<close>

fun kw_find :: "bool \<Rightarrow> bool \<Rightarrow> string list \<Rightarrow> string \<Rightarrow> string" where
  "kw_find ci wb [] s = []"
| "kw_find ci wb (a # as) s =
     (if a \<noteq> [] \<and> prefix_match ci a s \<and> (if wb then word_boundary s (length a) else True)
      then take (length a) s else kw_find ci wb as s)"

text \<open>\<^verbatim>\<open>^('[^']*'|"[^"]*")\<close>\<close>

definition string_find :: "string \<Rightarrow> string" where
  "string_find s =
     (case s of
        [] \<Rightarrow> []
      | q # rest \<Rightarrow>
          if (q = CHR 0x27 \<or> q = CHR 0x22) \<and> dropWhile (\<lambda>c. c \<noteq> q) rest \<noteq> []
          then q # takeWhile (\<lambda>c. c \<noteq> q) rest @ [q] else [])"

text \<open>
  \<^verbatim>\<open>^([a-zA-Z_][a-zA-Z_.@$]*)|(\[[a-zA-Z_][a-zA-Z_.@$]*)\]\<close>: the anchor belongs to
  the first alternative only, so a bracketed identifier matches anywhere in the text.
  \<open>bracket_ident s\<close> is the length of a bracketed identifier at the head of \<open>s\<close>.
\<close>

definition head_ident :: "string \<Rightarrow> string" where
  "head_ident s =
     (case s of
        [] \<Rightarrow> []
      | c # cs \<Rightarrow> if is_ident_start c then c # takeWhile is_ident_char cs else [])"

definition bracket_ident :: "string \<Rightarrow> nat" where
  "bracket_ident s =
     (case s of
        b # c # cs \<Rightarrow>
          if b = CHR ''['' \<and> is_ident_start c
               \<and> take 1 (dropWhile is_ident_char cs) = '']''
          then length (takeWhile is_ident_char cs) + 3 else 0
      | _ \<Rightarrow> 0)"

fun find_bracket :: "string \<Rightarrow> string" where
  "find_bracket [] = []"
| "find_bracket (c # cs) =
     (if bracket_ident (c # cs) > 0 then take (bracket_ident (c # cs)) (c # cs)
      else find_bracket cs)"

fun remove_brackets :: "string \<Rightarrow> string" where
  "remove_brackets [] = []"
| "remove_brackets (c # cs) =
     (if bracket_ident (c # cs) > 0 then remove_brackets (drop (bracket_ident (c # cs) - 1) cs)
      else c # remove_brackets cs)"

text \<open>\<^verbatim>\<open>^(\d+([eE]+?\d+)?)\<close>\<close>

definition is_e :: "char \<Rightarrow> bool" where
  "is_e c = (c = CHR ''e'' \<or> c = CHR ''E'')"

definition int_find :: "string \<Rightarrow> string" where
  "int_find s =
     (let d1 = takeWhile is_digit s;
          r = dropWhile is_digit s;
          es = takeWhile is_e r;
          d2 = takeWhile is_digit (dropWhile is_e r)
      in if d1 = [] then [] else if es \<noteq> [] \<and> d2 \<noteq> [] then d1 @ es @ d2 else d1)"

text \<open>\<^verbatim>\<open>^(\d*\.?\d+([eE][-+]?\d+)?)\<close>\<close>

definition float_exponent :: "string \<Rightarrow> string" where
  "float_exponent r =
     (case r of
        [] \<Rightarrow> []
      | e # r1 \<Rightarrow>
          (let sgn = (if r1 \<noteq> [] \<and> (hd r1 = CHR ''-'' \<or> hd r1 = CHR ''+'') then [hd r1] else []);
               d = takeWhile is_digit (drop (length sgn) r1)
           in if is_e e \<and> d \<noteq> [] then e # sgn @ d else []))"

definition float_find :: "string \<Rightarrow> string" where
  "float_find s =
     (let d1 = takeWhile is_digit s;
          r = dropWhile is_digit s;
          d2 = takeWhile is_digit (drop 1 r)
      in if take 1 r = ''.'' \<and> d2 \<noteq> []
         then d1 @ ''.'' @ d2 @ float_exponent (dropWhile is_digit (drop 1 r))
         else if d1 \<noteq> [] then d1 @ float_exponent r
         else [])"

text \<open>
  \<^verbatim>\<open>^=|==\<close>: the anchor belongs to the first alternative only, so \<^verbatim>\<open>==\<close> matches
  anywhere in the text.
\<close>

fun find_eqeq :: "string \<Rightarrow> string" where
  "find_eqeq (a # b # cs) = (if a = CHR ''='' \<and> b = CHR ''='' then ''=='' else find_eqeq (b # cs))"
| "find_eqeq s = []"

fun remove_eqeq :: "string \<Rightarrow> string" where
  "remove_eqeq (a # b # cs) =
     (if a = CHR ''='' \<and> b = CHR ''='' then remove_eqeq cs else a # remove_eqeq (b # cs))"
| "remove_eqeq s = s"

text \<open>\<^verbatim>\<open>FindString\<close>: the leftmost match, or the empty string when there is none.\<close>

fun FindString :: "rx \<Rightarrow> string \<Rightarrow> string" where
  "FindString (Kw ci alts wb) s = kw_find ci wb alts s"
| "FindString RxString s = string_find s"
| "FindString RxIdent s = (if head_ident s \<noteq> [] then head_ident s else find_bracket s)"
| "FindString RxInt s = int_find s"
| "FindString RxFloat s = float_find s"
| "FindString RxEqual s = (if take 1 s = ''='' then ''='' else find_eqeq s)"

text \<open>
  \<^verbatim>\<open>ReplaceAllString(s, "")\<close>: every match is removed. An anchored pattern matches at
  most once, at the head of the text.
\<close>

fun ReplaceAllString :: "rx \<Rightarrow> string \<Rightarrow> string" where
  "ReplaceAllString RxIdent s = remove_brackets (drop (length (head_ident s)) s)"
| "ReplaceAllString RxEqual s = (if take 1 s = ''='' then remove_eqeq (drop 1 s) else remove_eqeq s)"
| "ReplaceAllString r s = drop (length (FindString r s)) s"

subsection \<open>The tables (lexer\_symbols.go)\<close>

text \<open>The order of these regexes is important: the first that matches wins.\<close>

definition lexer_regex_table :: "(string \<times> rx) list" where
  "lexer_regex_table =
    [
     (''command'', Kw True [''FIND''] True),
     (''cmdspec'', Kw True [''ALL''] True),
     (''command2'', Kw True [''SORT'', ''GROUP'', ''DISTINCT''] True),
     (''pipe'', Kw False [''|''] False),
     (''condition'', Kw True [''MATCHING''] True),
     (''temporal'', Kw True [''SINCE'', ''BETWEEN''] True),
     (''relative'', Kw True [''YESTERDAY'', ''BEFORE'', ''LAST'', ''PREVIOUS'', ''AGO'',
        ''FOREVER''] True),
     (''clock'', Kw True [''SECOND'', ''MINUTE'', ''HOUR''] True),
     (''clocks'', Kw True [''SECONDS'', ''MINUTES'', ''HOURS''] True),
     (''calendar'', Kw True [''DAY'', ''WEEK'', ''FORTNIGHT'', ''MONTH'', ''QUARTER'',
        ''YEAR'', ''CENTURY''] True),
     (''calendars'', Kw True [''DAYS'', ''WEEKS'', ''FORTNIGHTS'', ''MONTHS'', ''QUARTERS'',
        ''YEARS'', ''CENTURIES''] True),
     (''weekday'', Kw True [''MONDAY'', ''TUESDAY'', ''WEDNESDAY'', ''THURSDAY'', ''FRIDAY'',
        ''SATURDAY'', ''SUNDAY''] True),
     (''weekdays'', Kw True [''MONDAYS'', ''TUESDAYS'', ''WEDNESDAYS'', ''THURSDAYS'',
        ''FRIDAYS'', ''SATURDAYS'', ''SUNDAYS''] True),
     (''mon'', Kw True [''JAN'', ''FEB'', ''MAR'', ''APR'', ''MAY'', ''JUN'', ''JUL'',
        ''AUG'', ''SEP'', ''OCT'', ''NOV'', ''DEC''] False),
     (''months'', Kw True [''JANUARY'', ''FEBRUARY'', ''MARCH'', ''APRIL'', ''MAY'', ''JUNE'',
        ''JULY'', ''AUGUST'', ''SEPTEMBER'', ''OCTOBER'', ''NOVEMBER'', ''DECEMBER''] False),
     (''string'', RxString),
     (''ident'', RxIdent),
     (''int'', RxInt),
     (''float'', RxFloat),
     (''comma'', Kw False ['',''] False),
     (''lparen'', Kw False [''(''] False),
     (''rparen'', Kw False ['')''] False),
     (''minus'', Kw False [''-''] False),
     (''plus'', Kw False [''+''] False),
     (''equal'', RxEqual),
     (''not_equal'', Kw False [''!='', ''<>''] False),
     (''mul'', Kw False [''*''] False),
     (''div'', Kw True [''/'', ''DIV''] True),
     (''mod'', Kw True [''%'', ''MOD''] True),
     (''less_equal'', Kw False [''<=''] False),
     (''greater_equal'', Kw False [''>=''] False),
     (''less'', Kw False [''<''] False),
     (''greater'', Kw False [''>''] False),
     (''and'', Kw True [''AND''] True),
     (''or'', Kw True [''OR''] True),
     (''not'', Kw True [''!'', ''NOT''] True),
     (''like'', Kw True [''LIKE''] True)
    ]"

text \<open>String to symbol look-up, entry by entry as in the source.\<close>

definition lexer_symbol_table :: "(string \<times> sym) list" where
  "lexer_symbol_table =
    [
     (''FIND'', sym_find), (''SORT'', sym_sort), (''GROUP'', sym_group),
     (''DISTINCT'', sym_distinct), (''ALL'', sym_all), (''|'', sym_pipe),
     (''MATCHING'', sym_matching), (''SINCE'', sym_since), (''BETWEEN'', sym_between),
     (''YESTERDAY'', sym_yesterday), (''BEFORE'', sym_before), (''LAST'', sym_last),
     (''PREVIOUS'', sym_previous), (''AGO'', sym_ago), (''FOREVER'', sym_between),
     (''SECOND'', sym_second), (''MINUTE'', sym_minute), (''HOUR'', sym_hour),
     (''SECONDS'', sym_second), (''MINUTES'', sym_minute), (''HOURS'', sym_hour),
     (''DAY'', sym_day), (''WEEK'', sym_week), (''FORTNIGHT'', sym_fortnight),
     (''MONTH'', sym_month), (''DAYS'', sym_day), (''WEEKS'', sym_week),
     (''FORTNIGHTS'', sym_fortnight), (''MONTHS'', sym_month), (''QUARTER'', sym_quarter),
     (''YEAR'', sym_year), (''CENTURY'', sym_century), (''QUARTERS'', sym_quarter),
     (''YEARS'', sym_year), (''CENTURIES'', sym_century), (''MONDAY'', sym_monday),
     (''TUESDAY'', sym_tuesday), (''WEDNESDAY'', sym_wednesday), (''MONDAYS'', sym_monday),
     (''TUESDAYS'', sym_tuesday), (''WEDNESDAYS'', sym_wednesday),
     (''THURSDAY'', sym_thursday), (''FRIDAY'', sym_friday), (''SATURDAY'', sym_saturday),
     (''SUNDAY'', sym_sunday), (''THURSDAYS'', sym_thursday), (''FRIDAYS'', sym_friday),
     (''SATURDAYS'', sym_saturday), (''SUNDAYS'', sym_sunday), (''JAN'', sym_january),
     (''FEB'', sym_february), (''MAR'', sym_march), (''APR'', sym_april), (''MAY'', sym_may),
     (''JUN'', sym_june), (''JUL'', sym_july), (''AUG'', sym_august),
     (''SEP'', sym_september), (''OCT'', sym_october), (''NOV'', sym_november),
     (''DEC'', sym_december), (''JANUARY'', sym_january), (''FEBUARY'', sym_february),
     (''MARCH'', sym_march), (''APRIL'', sym_april), (''JUNE'', sym_june),
     (''JULY'', sym_july), (''AUGUST'', sym_august), (''SEPTEMBER'', sym_september),
     (''OCTOBER'', sym_october), (''NOVEMBER'', sym_november), (''DECEMBER'', sym_december),
     ('','', sym_comma), (''('', sym_lparen), ('')'', sym_rparen), (''-'', sym_minus),
     (''+'', sym_plus), (''='', sym_equal), (''<>'', sym_not_equal), (''!='', sym_not_equal),
     (''*'', sym_mul), (''/'', sym_div), (''DIV'', sym_div), (''%'', sym_mod),
     (''MOD'', sym_mod), (''<='', sym_less_equal), (''>='', sym_greater_equal),
     (''<'', sym_less), (''>'', sym_greater), (''AND'', sym_and), (''OR'', sym_or),
     (''NOT'', sym_not), (''!'', sym_not), (''LIKE'', sym_like)
    ]"

subsection \<open>The token lexer\<close>

datatype lex_error = UnknownSymbol string | UnknownToken string

text \<open>The first rule of the table, in order, whose \<^verbatim>\<open>FindString\<close> is not empty.\<close>

fun first_match :: "(string \<times> rx) list \<Rightarrow> string \<Rightarrow> (string \<times> rx) option" where
  "first_match [] s = None"
| "first_match ((t, r) # rules) s =
     (if FindString r s \<noteq> [] then Some (t, r) else first_match rules s)"

text \<open>\<^verbatim>\<open>strings.Trim(result, "[]")\<close>\<close>

definition trim_brackets :: "string \<Rightarrow> string" where
  "trim_brackets s =
     rev (dropWhile (\<lambda>c. c \<in> set ''[]'') (rev (dropWhile (\<lambda>c. c \<in> set ''[]'') s)))"

text \<open>
  The token made from a match: quotes and brackets are removed from strings and
  identifiers, numbers are kept, and everything else must be in the symbol table.
\<close>

definition make_token :: "string \<Rightarrow> string \<Rightarrow> nat \<Rightarrow> lex_error + lexer_token" where
  "make_token t result pos =
     (if t = ''string''
      then Inr \<lparr>tag = t, token = 0, val = butlast (tl result), stmt_pos = pos\<rparr>
      else if t = ''ident''
      then Inr \<lparr>tag = t, token = 0, val = trim_brackets result, stmt_pos = pos\<rparr>
      else if t = ''int'' \<or> t = ''float''
      then Inr \<lparr>tag = t, token = 0, val = result, stmt_pos = pos\<rparr>
      else case map_of lexer_symbol_table result of
        Some sy \<Rightarrow> Inr \<lparr>tag = t, token = sy, val = result, stmt_pos = pos\<rparr>
      | None \<Rightarrow> Inl (UnknownSymbol result))"

lemma remove_brackets_length: "length (remove_brackets s) \<le> length s"
proof (induction s rule: remove_brackets.induct)
  case 1
  show ?case by simp
next
  case (2 c cs)
  show ?case
  proof (cases "bracket_ident (c # cs) > 0")
    case True
    with "2.IH"(1) have "length (remove_brackets (drop (bracket_ident (c # cs) - 1) cs))
        \<le> length (drop (bracket_ident (c # cs) - 1) cs)" by simp
    with True show ?thesis by simp
  next
    case False
    with "2.IH"(2) show ?thesis by simp
  qed
qed

lemma remove_brackets_shorter:
  "find_bracket s \<noteq> [] \<Longrightarrow> length (remove_brackets s) < length s"
proof (induction s rule: find_bracket.induct)
  case 1
  then show ?case by simp
next
  case (2 c cs)
  show ?case
  proof (cases "bracket_ident (c # cs) > 0")
    case True
    have "length (remove_brackets (drop (bracket_ident (c # cs) - 1) cs))
        \<le> length (drop (bracket_ident (c # cs) - 1) cs)"
      by (rule remove_brackets_length)
    with True show ?thesis by simp
  next
    case False
    with 2 show ?thesis by simp
  qed
qed

lemma remove_eqeq_length: "length (remove_eqeq s) \<le> length s"
  by (induction s rule: remove_eqeq.induct) auto

lemma remove_eqeq_shorter: "find_eqeq s \<noteq> [] \<Longrightarrow> length (remove_eqeq s) < length s"
proof (induction s rule: find_eqeq.induct)
  case (1 a b cs)
  show ?case
  proof (cases "a = CHR ''='' \<and> b = CHR ''=''")
    case True
    have "length (remove_eqeq cs) \<le> length cs" by (rule remove_eqeq_length)
    with True show ?thesis by simp
  next
    case False
    with 1 show ?thesis by auto
  qed
qed simp_all

lemma ReplaceAllString_shorter:
  assumes "s \<noteq> []" and "FindString r s \<noteq> []"
  shows "length (ReplaceAllString r s) < length s"
proof (cases r)
  case RxIdent
  show ?thesis
  proof (cases "head_ident s = []")
    case True
    with assms RxIdent show ?thesis by (simp add: remove_brackets_shorter)
  next
    case False
    have "length (remove_brackets (drop (length (head_ident s)) s))
        \<le> length (drop (length (head_ident s)) s)" by (rule remove_brackets_length)
    moreover from False assms have "length s - length (head_ident s) < length s"
      by (intro diff_less) simp_all
    ultimately show ?thesis using RxIdent by simp
  qed
next
  case RxEqual
  show ?thesis
  proof (cases "take 1 s = ''=''")
    case True
    have "length (remove_eqeq (drop 1 s)) \<le> length (drop 1 s)" by (rule remove_eqeq_length)
    moreover from assms have "length s - 1 < length s"
      by (intro diff_less) simp_all
    ultimately show ?thesis using True RxEqual by simp
  next
    case False
    with assms RxEqual show ?thesis by (simp add: remove_eqeq_shorter)
  qed
qed (use assms in auto)

lemma TrimSpace_length: "length (TrimSpace s) \<le> length s"
proof -
  have "length (dropWhile is_space (rev (dropWhile is_space s)))
      \<le> length (rev (dropWhile is_space s))" by (rule length_dropWhile_le)
  also have "\<dots> \<le> length s" by (simp add: length_dropWhile_le)
  finally show ?thesis by (simp add: TrimSpace_def)
qed

lemma first_match_found: "first_match rules s = Some (t, r) \<Longrightarrow> FindString r s \<noteq> []"
  by (induction rules s rule: first_match.induct) (auto split: if_splits)

text \<open>
  The loop \<^verbatim>\<open>for len(s) > 0\<close> of \<^verbatim>\<open>lexer\<close>: the matched token is appended, every match
  of its pattern is removed from \<open>s\<close>, and the position moves by the number of bytes
  that went away.
\<close>

function lexer_loop :: "string \<Rightarrow> nat \<Rightarrow> lexer_token list \<Rightarrow> lex_error + lexer_token list" where
  "lexer_loop s pos toks =
     (if s = [] then Inr toks
      else case first_match lexer_regex_table s of
        None \<Rightarrow> Inl (UnknownToken s)
      | Some (t, r) \<Rightarrow>
          (case make_token t (FindString r s) pos of
             Inl e \<Rightarrow> Inl e
           | Inr newtoken \<Rightarrow>
               (let s2 = TrimSpace (ReplaceAllString r s)
                in lexer_loop s2 (pos + (length s - length s2)) (toks @ [newtoken]))))"
  by pat_completeness auto
termination
proof (relation "measure (\<lambda>(s, pos, toks). length s)")
  show "wf (measure (\<lambda>(s, pos, toks). length s))" by simp
next
  fix s :: string and pos :: nat and toks :: "lexer_token list" and x2 x y x2a s2
  assume ne: "s \<noteq> []" and fm: "first_match lexer_regex_table s = Some x2"
    and x2: "(x, y) = x2" and s2: "s2 = TrimSpace (ReplaceAllString y s)"
  from fm x2 have "FindString y s \<noteq> []" by (auto dest: first_match_found)
  with ne have "length (ReplaceAllString y s) < length s" by (rule ReplaceAllString_shorter)
  moreover have "length s2 \<le> length (ReplaceAllString y s)"
    unfolding s2 by (rule TrimSpace_length)
  ultimately show "((s2, pos + (length s - length s2), toks @ [x2a]), s, pos, toks)
      \<in> measure (\<lambda>(s, pos, toks). length s)" by simp
qed

declare lexer_loop.simps [simp del]

text \<open>
  \<^verbatim>\<open>lexer\<close>: comments and special spacing are replaced, leading and trailing white space
  is removed, and the statement is tokenised.
\<close>

definition lexer :: "string \<Rightarrow> lex_error + lexer_token list" where
  "lexer s = lexer_loop (TrimSpace (pre_spacing (pre_block (pre_line s)))) 0 []"

section \<open>Integers and times\<close>

text \<open>
  Go's \<^verbatim>\<open>int\<close> and \<^verbatim>\<open>int64\<close> are 64-bit two's complement; they are modelled
  as \<^typ>\<open>int\<close> with the wrap-around \<open>i64\<close> written out after every operation that
  can overflow. Go's \<^verbatim>\<open>%\<close> truncates towards zero.
\<close>

definition i64 :: "int \<Rightarrow> int" where
  "i64 x = signed_take_bit 63 x"

definition go_rem :: "int \<Rightarrow> int \<Rightarrow> int" where
  "go_rem a b = sgn a * (\<bar>a\<bar> mod \<bar>b\<bar>)"

text \<open>We use the int64 unix epoch: nanoseconds since 1 Jan 1970.\<close>

definition temp_second :: int where "temp_second = 1000 * 1000 * 1000"
definition temp_minute :: int where "temp_minute = temp_second * 60"
definition temp_hour :: int where "temp_hour = temp_minute * 60"
definition temp_day :: int where "temp_day = temp_hour * 24"

text \<open>
  A \<^verbatim>\<open>time.Time\<close> is modelled by its instant: the exact number of nanoseconds since
  the Unix epoch (Go's type spans far more than an int64 of nanoseconds).
  \<^verbatim>\<open>UnixNano\<close> converts to int64; \<^verbatim>\<open>Add\<close> adds a duration in nanoseconds;
  \<^verbatim>\<open>Truncate\<close> rounds down to a multiple of the duration since Go's zero time
  (1 Jan of year 1, which is 62135596800 seconds before the Unix epoch).
\<close>

type_synonym go_time = int

definition UnixNano :: "go_time \<Rightarrow> int" where
  "UnixNano t = i64 t"

definition Add :: "go_time \<Rightarrow> int \<Rightarrow> go_time" where
  "Add t d = t + d"

definition unix_to_internal :: int where
  "unix_to_internal = 62135596800 * 1000000000"

definition Truncate :: "go_time \<Rightarrow> int \<Rightarrow> go_time" where
  "Truncate t d = (if d \<le> 0 then t else t - ((t + unix_to_internal) mod d))"

definition time_Minute :: int where "time_Minute = 60 * 1000000000"
definition time_Hour :: int where "time_Hour = 60 * time_Minute"

subsection \<open>The calendar in UTC\<close>

text \<open>
  \<^verbatim>\<open>time.Date(y, m, d, 0, 0, 0, 0, time.UTC)\<close> and \<^verbatim>\<open>AddDate\<close> on a UTC time do not
  depend on the process: the proleptic Gregorian calendar, with the month normalised
  into the year before the day is added, as \<^verbatim>\<open>time.Date\<close> does.
\<close>

definition days_from_civil :: "int \<Rightarrow> int \<Rightarrow> int \<Rightarrow> int" where
  "days_from_civil y0 m d =
     (let y = (if m \<le> 2 then y0 - 1 else y0);
          era = y div 400;
          yoe = y - era * 400;
          doy = (153 * (if m > 2 then m - 3 else m + 9) + 2) div 5 + d - 1;
          doe = yoe * 365 + yoe div 4 - yoe div 100 + doy
      in era * 146097 + doe - 719468)"

definition civil_from_days :: "int \<Rightarrow> int \<times> int \<times> int" where
  "civil_from_days z0 =
     (let z = z0 + 719468;
          era = z div 146097;
          doe = z - era * 146097;
          yoe = (doe - doe div 1460 + doe div 36524 - doe div 146096) div 365;
          doy = doe - (365 * yoe + yoe div 4 - yoe div 100);
          mp = (5 * doy + 2) div 153;
          d = doy - (153 * mp + 2) div 5 + 1;
          m = (if mp < 10 then mp + 3 else mp - 9)
      in (yoe + era * 400 + (if m \<le> 2 then 1 else 0), m, d))"

definition Date_UTC :: "int \<Rightarrow> int \<Rightarrow> int \<Rightarrow> int \<Rightarrow> go_time" where
  "Date_UTC y m d nsec_of_day =
     (days_from_civil (y + (m - 1) div 12) ((m - 1) mod 12 + 1) 1 + (d - 1)) * temp_day
       + nsec_of_day"

definition AddDate_UTC :: "go_time \<Rightarrow> int \<Rightarrow> int \<Rightarrow> int \<Rightarrow> go_time" where
  "AddDate_UTC t years months days =
     (case civil_from_days (t div temp_day) of
        (y, m, d) \<Rightarrow> Date_UTC (y + years) (m + months) (d + days) (t mod temp_day))"

definition Year_UTC :: "go_time \<Rightarrow> int" where
  "Year_UTC t = fst (civil_from_days (t div temp_day))"

definition Month_UTC :: "go_time \<Rightarrow> int" where
  "Month_UTC t = fst (snd (civil_from_days (t div temp_day)))"

definition Weekday_UTC :: "go_time \<Rightarrow> int" where
  "Weekday_UTC t = (t div temp_day + 4) mod 7"

subsection \<open>What the parser takes from its process\<close>

text \<open>
  The parser reads the wall clock several times during one parse, does calendar
  arithmetic in the process's local time zone, and calls \<^verbatim>\<open>time.Parse\<close>. These come
  from the Go runtime and library, so the model takes them as a parameter: \<open>Now n\<close> is
  the instant returned by the \<open>n\<close>-th call of \<^verbatim>\<open>time.Now()\<close>, the \<open>local_\<close> functions
  are \<^verbatim>\<open>AddDate\<close>, \<^verbatim>\<open>Year\<close>, \<^verbatim>\<open>Month\<close> and \<^verbatim>\<open>Weekday\<close> on a time in the local zone,
  and \<open>time_Parse layout value\<close> is the instant \<^verbatim>\<open>time.Parse\<close> returns, or \<open>None\<close>
  when it returns an error.
\<close>

record go_env =
  Now :: "nat \<Rightarrow> go_time"
  local_AddDate :: "go_time \<Rightarrow> int \<Rightarrow> int \<Rightarrow> int \<Rightarrow> go_time"
  local_Year :: "go_time \<Rightarrow> int"
  local_Month :: "go_time \<Rightarrow> int"
  local_Weekday :: "go_time \<Rightarrow> int"
  time_Parse :: "string \<Rightarrow> string \<Rightarrow> go_time option"

definition time_DateTime :: string where "time_DateTime = ''2006-01-02 15:04:05''"
definition time_DateOnly :: string where "time_DateOnly = ''2006-01-02''"
definition time_TimeOnly :: string where "time_TimeOnly = ''15:04:05''"

section \<open>Parser state (parser.go)\<close>

text \<open>
  Item leaves hold pointers to a token's tag and value; the tokens are never written
  after lexing, so a pointer is modelled by the string it points to, and \<open>None\<close> is
  the nil pointer of a zero item.
\<close>

record item =
  lexer_sym :: sym
  lexer_tag :: "string option"
  lexer_val :: "string option"

text \<open>AND items (within OR).\<close>

record and_item =
  this :: item
  left :: item
  right :: item

text \<open>
  OR items: the same three leaves and the list of AND items. The lists hold pointers,
  \<open>None\<close> being nil; a nil slice is the empty list (no slice here is ever empty and
  not nil).
\<close>

record or_item = and_item +
  and_list :: "and_item option list"

text \<open>
  The parser structure (the field \<^verbatim>\<open>fields\<close> is \<open>fields_list\<close> here). \<open>num_tokens\<close> is set to \<^verbatim>\<open>len(p.tokens)\<close> by \<^verbatim>\<open>parser()\<close>
  before the grammar runs and is never written again, so it is read off the token
  list. \<open>now_calls\<close> is not a field of the Go structure: it counts the calls of
  \<^verbatim>\<open>time.Now()\<close> made so far.
\<close>

record Parser =
  query :: string
  tokens :: "lexer_token list"
  token_index :: nat
  fields_list :: "string list"
  field_aliases :: "string list"
  find_flags :: "8 word"
  time_from :: int
  time_to :: int
  or_list :: "or_item option list"
  now_calls :: nat

definition num_tokens :: "Parser \<Rightarrow> nat" where
  "num_tokens p = length (tokens p)"

definition find_flags_all :: "8 word" where
  "find_flags_all = 1"

definition zero_item :: item where
  "zero_item = \<lparr>lexer_sym = 0, lexer_tag = None, lexer_val = None\<rparr>"

definition zero_and_item :: and_item where
  "zero_and_item = \<lparr>this = zero_item, left = zero_item, right = zero_item\<rparr>"

definition zero_or_item :: or_item where
  "zero_or_item = \<lparr>this = zero_item, left = zero_item, right = zero_item, and_list = []\<rparr>"

subsection \<open>Errors\<close>

text \<open>
  Every \<^verbatim>\<open>fmt.Errorf\<close> of the parser is one kind of error, carrying the rest of the
  query from the position of a token. A run-time panic of Go (an index or a slice
  bound out of range, a nil pointer) is the value \<open>Panic\<close>.
\<close>

datatype errkind =
    NotIntLiteral | UnexpectedSymbol | BeforeYesterdayMissing | InvalidTemporalReference
  | MissingAnd | UnexpectedClauseDerived | ExpectedSublist | UnexpectedClauseSublist
  | StatementCutShort | ExpectedStatement | ExpectedTemporalClause | MatchingCutShort
  | ExpectedEqual

datatype error = Panic | SyntaxError errkind string

text \<open>\<^verbatim>\<open>fmt.Errorf("... at '%s'", p.query[p.tokens[k].stmt_pos:])\<close>\<close>

definition fail_at :: "Parser \<Rightarrow> nat \<Rightarrow> errkind \<Rightarrow> error" where
  "fail_at p k e =
     (if k < length (tokens p) then
        (let pos = stmt_pos (tokens p ! k)
         in if pos \<le> length (query p) then SyntaxError e (drop pos (query p)) else Panic)
      else Panic)"

text \<open>The token under the cursor; only read where the cursor is known to be in range.\<close>

definition cur :: "Parser \<Rightarrow> lexer_token" where
  "cur p = tokens p ! token_index p"

definition tok_at :: "Parser \<Rightarrow> nat \<Rightarrow> sym" where
  "tok_at p k = token (tokens p ! k)"

definition advance :: "nat \<Rightarrow> Parser \<Rightarrow> Parser" where
  "advance n p = p\<lparr>token_index := token_index p + n\<rparr>"


section \<open>Matching conditions\<close>

text \<open>
  \<^verbatim>\<open>do_val_expr\<close> copies the token under the cursor into an item leaf and always
  returns nil. Its callers read the cursor first, so it is in range here.
\<close>

definition do_val_expr :: "Parser \<Rightarrow> item" where
  "do_val_expr p =
     \<lparr>lexer_sym = token (cur p), lexer_tag = Some (tag (cur p)), lexer_val = Some (val (cur p))\<rparr>"

text \<open>
  \<^verbatim>\<open>do_and_cond\<close>: the debug print reads the token under the cursor, the last OR item
  is dereferenced, its AND list grows by one slot, and the predicate
  \<^verbatim>\<open>left = right\<close> is read and stored in that slot.
\<close>

definition do_and_cond :: "Parser \<Rightarrow> error + Parser" where
  "do_and_cond p0 =
     (if \<not> token_index p0 < num_tokens p0 then Inl Panic
      else if or_list p0 = [] then Inl Panic
      else case last (or_list p0) of
        None \<Rightarrow> Inl Panic
      | Some oi \<Rightarrow>
          (let or_ofs = length (or_list p0) - 1;
               al = (if and_list oi \<noteq> [] then and_list oi @ [Some zero_and_item] else [None]);
               p1 = p0\<lparr>or_list := (or_list p0)[or_ofs := Some (oi\<lparr>and_list := al\<rparr>)]\<rparr>;
               l = do_val_expr p1;
               p2 = advance 1 p1
           in if token_index p2 + 2 \<ge> num_tokens p2
              then Inl (fail_at p2 (token_index p2) MatchingCutShort)
              else if token (cur p2) \<noteq> sym_equal
              then Inl (fail_at p2 (token_index p2) ExpectedEqual)
              else
                (let t = do_val_expr p2;
                     p3 = advance 1 p2;
                     r = do_val_expr p3;
                     p4 = advance 1 p3;
                     new_and_item = \<lparr>this = t, left = l, right = r\<rparr>
                 in Inr (p4\<lparr>or_list := (or_list p4)
                      [or_ofs := Some (oi\<lparr>and_list := al[length al - 1 := Some new_and_item]\<rparr>)]\<rparr>))))"

lemma do_and_cond_cursor:
  assumes "do_and_cond p = Inr p'"
  shows "tokens p' = tokens p \<and> token_index p' = token_index p + 3"
  using assms
  by (auto simp: do_and_cond_def Let_def advance_def num_tokens_def
           split: if_splits option.splits)

text \<open>
  The loop at the end of \<^verbatim>\<open>do_or_cond\<close>:
  \<^verbatim>\<open>for p.tokens[p.token_index].token == sym_and { p.token_index++; do_and_cond() }\<close>
\<close>

function do_or_cond_loop :: "Parser \<Rightarrow> error + Parser" where
  "do_or_cond_loop p =
     (if token_index p < num_tokens p then
        (if token (cur p) = sym_and then
           (case do_and_cond (advance 1 p) of
              Inl e \<Rightarrow> Inl e
            | Inr p' \<Rightarrow> do_or_cond_loop p')
         else Inr p)
      else Inl Panic)"
  by pat_completeness auto
termination
proof (relation "measure (\<lambda>p. num_tokens p - token_index p)")
  show "wf (measure (\<lambda>p. num_tokens p - token_index p))" by simp
next
  fix p p'
  assume lt: "token_index p < num_tokens p"
    and ok: "do_and_cond (advance 1 p) = Inr p'"
  from do_and_cond_cursor [OF ok]
  have "tokens p' = tokens p" and "token_index p' = token_index p + 4"
    by (simp_all add: advance_def)
  with lt show "(p', p) \<in> measure (\<lambda>p. num_tokens p - token_index p)"
    by (simp add: num_tokens_def)
qed

declare do_or_cond_loop.simps [simp del]

text \<open>
  \<^verbatim>\<open>do_or_cond\<close>: the OR list grows by one slot, the first predicate of the group is
  read into a new OR item (whose AND list is nil) stored in that slot, and the loop
  reads the AND clauses that follow.
\<close>

definition do_or_cond :: "Parser \<Rightarrow> error + Parser" where
  "do_or_cond p0 =
     (if \<not> token_index p0 < num_tokens p0 then Inl Panic
      else
        (let ol = (if or_list p0 \<noteq> [] then or_list p0 @ [Some zero_or_item] else [None]);
             p1 = p0\<lparr>or_list := ol\<rparr>;
             l = do_val_expr p1;
             p2 = advance 1 p1
         in if token_index p2 + 2 \<ge> num_tokens p2
            then Inl (fail_at p2 (token_index p2) MatchingCutShort)
            else if token (cur p2) \<noteq> sym_equal
            then Inl (fail_at p2 (token_index p2) ExpectedEqual)
            else
              (let t = do_val_expr p2;
                   p3 = advance 1 p2;
                   r = do_val_expr p3;
                   p4 = advance 1 p3;
                   new_or_item = \<lparr>this = t, left = l, right = r, and_list = []\<rparr>
               in do_or_cond_loop (p4\<lparr>or_list := ol[length ol - 1 := Some new_or_item]\<rparr>))))"

lemma do_or_cond_loop_cursor:
  "do_or_cond_loop p = Inr p' \<Longrightarrow> tokens p' = tokens p \<and> token_index p \<le> token_index p'"
proof (induction p rule: do_or_cond_loop.induct)
  case (1 p)
  show ?case
  proof (cases "token_index p < num_tokens p \<and> token (cur p) = sym_and")
    case True
    with "1.prems" obtain q where q: "do_and_cond (advance 1 p) = Inr q"
      and r: "do_or_cond_loop q = Inr p'"
      by (subst (asm) do_or_cond_loop.simps) (auto split: sum.splits)
    from do_and_cond_cursor [OF q]
    have "tokens q = tokens p" and "token_index q = token_index p + 4"
      by (simp_all add: advance_def)
    moreover from "1.IH" [OF _ _ q r] True
    have "tokens p' = tokens q \<and> token_index q \<le> token_index p'" by simp
    ultimately show ?thesis by simp
  next
    case False
    with "1.prems" show ?thesis
      by (subst (asm) do_or_cond_loop.simps) (auto split: if_splits)
  qed
qed

lemma do_or_cond_cursor:
  assumes "do_or_cond p = Inr p'"
  shows "tokens p' = tokens p \<and> token_index p + 3 \<le> token_index p'"
proof -
  from assms obtain q where q: "do_or_cond_loop q = Inr p'"
    and tq: "tokens q = tokens p" and iq: "token_index q = token_index p + 3"
    by (auto simp: do_or_cond_def Let_def advance_def split: if_splits)
  from do_or_cond_loop_cursor [OF q] tq iq show ?thesis by simp
qed

text \<open>
  \<^verbatim>\<open>do_matching_cond\<close>: the first item of the MATCHING clause is regarded as an OR;
  then \<^verbatim>\<open>for p.tokens[p.token_index].token == sym_or { p.token_index++; do_or_cond() }\<close>
\<close>

function do_matching_cond_loop :: "Parser \<Rightarrow> error + Parser" where
  "do_matching_cond_loop p =
     (if token_index p < num_tokens p then
        (if token (cur p) = sym_or then
           (case do_or_cond (advance 1 p) of
              Inl e \<Rightarrow> Inl e
            | Inr p' \<Rightarrow> do_matching_cond_loop p')
         else Inr p)
      else Inl Panic)"
  by pat_completeness auto
termination
proof (relation "measure (\<lambda>p. num_tokens p - token_index p)")
  show "wf (measure (\<lambda>p. num_tokens p - token_index p))" by simp
next
  fix p p'
  assume lt: "token_index p < num_tokens p"
    and ok: "do_or_cond (advance 1 p) = Inr p'"
  from do_or_cond_cursor [OF ok]
  have "tokens p' = tokens p" and "token_index p + 4 \<le> token_index p'"
    by (simp_all add: advance_def)
  with lt show "(p', p) \<in> measure (\<lambda>p. num_tokens p - token_index p)"
    by (simp add: num_tokens_def)
qed

declare do_matching_cond_loop.simps [simp del]

definition do_matching_cond :: "Parser \<Rightarrow> error + Parser" where
  "do_matching_cond p =
     (if \<not> token_index p < num_tokens p then Inl Panic
      else case do_or_cond p of
        Inl e \<Rightarrow> Inl e
      | Inr p' \<Rightarrow> do_matching_cond_loop p')"


section \<open>Temporal references\<close>

subsection \<open>Integer literals\<close>

text \<open>
  \<^verbatim>\<open>strconv.Atoi\<close>: an optional sign, then one or more decimal digits, and the value
  must fit the 64-bit \<^verbatim>\<open>int\<close>.
\<close>

definition digit_val :: "char \<Rightarrow> int" where
  "digit_val c = int (of_char c) - 48"

definition digits_val :: "string \<Rightarrow> int" where
  "digits_val ds = foldl (\<lambda>n c. n * 10 + digit_val c) 0 ds"

definition Atoi :: "string \<Rightarrow> int option" where
  "Atoi s =
     (let neg = (s \<noteq> [] \<and> hd s = CHR ''-'');
          ds = (if s \<noteq> [] \<and> (hd s = CHR ''-'' \<or> hd s = CHR ''+'') then tl s else s)
      in if ds \<noteq> [] \<and> list_all is_digit ds then
           (let v = (if neg then - digits_val ds else digits_val ds)
            in if - (2 ^ 63) \<le> v \<and> v < 2 ^ 63 then Some v else None)
         else None)"

definition do_int_literal :: "Parser \<Rightarrow> error + int" where
  "do_int_literal p =
     (if \<not> token_index p < num_tokens p then Inl Panic
      else case Atoi (val (cur p)) of
        None \<Rightarrow> Inl (fail_at p (token_index p) NotIntLiteral)
      | Some i \<Rightarrow> Inr i)"

subsection \<open>Relative references\<close>

text \<open>Find the previous specified weekday, or the one before that.\<close>

definition prev_weekday :: "go_env \<Rightarrow> go_time \<Rightarrow> int \<Rightarrow> int \<Rightarrow> go_time" where
  "prev_weekday env curDateTime weekday ntimes =
     (let c1 = local_AddDate env curDateTime 0 0
                 (go_rem (- (local_Weekday env curDateTime - weekday + 7)) 7);
          c2 = (if ntimes > 1 then local_AddDate env c1 0 0 (- 7) else c1)
      in Truncate c2 (24 * time_Hour))"

text \<open>Find the previous specified month, or the one before that.\<close>

definition prev_month :: "go_env \<Rightarrow> go_time \<Rightarrow> int \<Rightarrow> int \<Rightarrow> go_time" where
  "prev_month env curDateTime month ntimes0 =
     (let curYear = local_Year env curDateTime;
          curMonth = local_Month env curDateTime;
          ntimes = (if curMonth \<le> month then i64 (ntimes0 + 1) else ntimes0);
          c = Date_UTC curYear month 1 0
      in AddDate_UTC c (i64 (- i64 (ntimes - 1))) 0 0)"

text \<open>
  The \<^verbatim>\<open>switch tok\<close> of \<^verbatim>\<open>do_reltime_ref\<close>: the new value of \<^verbatim>\<open>curDateTime\<close>, or
  \<open>None\<close> in the default case. \<^verbatim>\<open>time.Duration(n)\<close> is \<open>n\<close> nanoseconds.
\<close>

definition reltime_switch :: "go_env \<Rightarrow> sym \<Rightarrow> int \<Rightarrow> go_time \<Rightarrow> go_time option" where
  "reltime_switch env tok ntimes c =
     (if tok = sym_second then Some (Add c (i64 (- i64 ntimes)))
      else if tok = sym_minute then
        Some (Truncate (Add c (i64 (- i64 (60 * ntimes)))) time_Minute)
      else if tok = sym_hour then
        Some (Truncate (Add c (i64 (- i64 (3600 * ntimes)))) time_Hour)
      else if tok = sym_monday then Some (prev_weekday env c 1 ntimes)
      else if tok = sym_tuesday then Some (prev_weekday env c 2 ntimes)
      else if tok = sym_wednesday then Some (prev_weekday env c 3 ntimes)
      else if tok = sym_thursday then Some (prev_weekday env c 4 ntimes)
      else if tok = sym_friday then Some (prev_weekday env c 5 ntimes)
      else if tok = sym_saturday then Some (prev_weekday env c 6 ntimes)
      else if tok = sym_sunday then Some (prev_weekday env c 0 ntimes)
      else if tok = sym_january then Some (prev_month env c 1 ntimes)
      else if tok = sym_february then Some (prev_month env c 2 ntimes)
      else if tok = sym_march then Some (prev_month env c 3 ntimes)
      else if tok = sym_april then Some (prev_month env c 4 ntimes)
      else if tok = sym_may then Some (prev_month env c 5 ntimes)
      else if tok = sym_june then Some (prev_month env c 6 ntimes)
      else if tok = sym_july then Some (prev_month env c 7 ntimes)
      else if tok = sym_august then Some (prev_month env c 8 ntimes)
      else if tok = sym_september then Some (prev_month env c 9 ntimes)
      else if tok = sym_october then Some (prev_month env c 10 ntimes)
      else if tok = sym_november then Some (prev_month env c 11 ntimes)
      else if tok = sym_december then Some (prev_month env c 12 ntimes)
      else if tok = sym_day then
        Some (Truncate (local_AddDate env c 0 0 (i64 (- ntimes))) (24 * time_Hour))
      else if tok = sym_week then
        Some (Truncate (local_AddDate env c 0 0 (i64 (- 7 * ntimes))) (24 * time_Hour))
      else if tok = sym_fortnight then
        Some (Truncate (local_AddDate env c 0 0 (i64 (- 14 * ntimes))) (24 * time_Hour))
      else if tok = sym_month then
        Some (Truncate (local_AddDate env c 0 (i64 (- ntimes)) 0) (24 * time_Hour))
      else if tok = sym_quarter then
        Some (Truncate (local_AddDate env c 0 (i64 (- 3 * ntimes)) 0) (24 * time_Hour))
      else if tok = sym_year then
        Some (Truncate (local_AddDate env c (i64 (- ntimes)) 0 0) (24 * time_Hour))
      else if tok = sym_century then
        Some (Truncate (local_AddDate env c (i64 (- 100 * ntimes)) 0 0) (24 * time_Hour))
      else None)"

text \<open>
  The look-ahead of \<^verbatim>\<open>do_reltime_ref\<close>: the unit token, the count and the cursor
  after \<^verbatim>\<open>LAST <unit>\<close>, \<^verbatim>\<open><unit> BEFORE LAST\<close> or \<^verbatim>\<open><unit> AGO\<close>; when none of the
  three matches, \<^verbatim>\<open>tok\<close> and \<^verbatim>\<open>times\<close> (here \<open>ntimes\<close>) keep their zero values.
\<close>

definition reltime_shape :: "Parser \<Rightarrow> int \<Rightarrow> sym \<times> int \<times> Parser" where
  "reltime_shape p int_literal =
     (if token_index p + 1 < num_tokens p \<and> token (cur p) = sym_last
      then (tok_at p (token_index p + 1), 1, advance 2 p)
      else if token_index p + 2 < num_tokens p
              \<and> tok_at p (token_index p + 1) = sym_before
              \<and> tok_at p (token_index p + 2) = sym_last
      then (token (cur p), 2, advance 3 p)
      else if token_index p + 1 < num_tokens p \<and> tok_at p (token_index p + 1) = sym_ago
      then (token (cur p), int_literal, advance 2 p)
      else (0, 0, p))"

definition tick :: "Parser \<Rightarrow> Parser" where
  "tick p = p\<lparr>now_calls := now_calls p + 1\<rparr>"

definition do_reltime_ref :: "go_env \<Rightarrow> Parser \<Rightarrow> int \<Rightarrow> bool \<Rightarrow> error + int \<times> Parser" where
  "do_reltime_ref env p0 int_literal end =
     (if \<not> token_index p0 < num_tokens p0 then Inl Panic
      else
        (let curDateTime = Now env (now_calls p0);
             p1 = tick p0
         in case reltime_shape p1 int_literal of
              (tok, ntimes, p2) \<Rightarrow>
                (case reltime_switch env tok ntimes curDateTime of
                   Some c \<Rightarrow> Inr (UnixNano c, p2)
                 | None \<Rightarrow>
                     if int_literal = 0
                     then Inl (fail_at p2 (token_index p2) UnexpectedSymbol)
                     else Inr (UnixNano curDateTime, p2))))"

subsection \<open>One temporal reference\<close>

text \<open>
  \<^verbatim>\<open>DAY BEFORE YESTERDAY\<close> (\<open>n = 2\<close>) and \<^verbatim>\<open>YESTERDAY\<close> (\<open>n = 1\<close>) work on the int64
  clock value: step back, round back to the day, and at the end of a range add
  \<^verbatim>\<open>temp_day - temp_second\<close>.
\<close>

definition days_back :: "int \<Rightarrow> int \<Rightarrow> bool \<Rightarrow> int" where
  "days_back clock_ref n end =
     (let c1 = i64 (clock_ref - n * temp_day);
          c2 = i64 (c1 - go_rem c1 temp_day)
      in if end then i64 (c2 + (temp_day - temp_second)) else c2)"

definition parse_abstime :: "go_env \<Rightarrow> string \<Rightarrow> go_time option" where
  "parse_abstime env v =
     (case time_Parse env time_DateTime v of
        Some tt \<Rightarrow> Some tt
      | None \<Rightarrow>
          (case time_Parse env time_DateOnly v of
             Some tt \<Rightarrow> Some tt
           | None \<Rightarrow> time_Parse env time_TimeOnly v))"

text \<open>Fills \<open>t\<close> with the temporal reference; \<open>end\<close> asks for the end of the range.\<close>

definition do_temp_ref :: "go_env \<Rightarrow> Parser \<Rightarrow> bool \<Rightarrow> error + int \<times> Parser" where
  "do_temp_ref env p0 end =
     (if \<not> token_index p0 < num_tokens p0 then Inl Panic
      else
        (let clock_ref = UnixNano (Now env (now_calls p0));
             p = tick p0;
             i = token_index p;
             tk = token (cur p)
         in if tk = sym_day then
              (if i + 2 < num_tokens p \<and> tok_at p (i + 1) = sym_before
                   \<and> tok_at p (i + 2) = sym_yesterday
               then Inr (days_back clock_ref 2 end, advance 3 p)
               else Inl (fail_at p i BeforeYesterdayMissing))
            else if tk = sym_yesterday then Inr (days_back clock_ref 1 end, advance 1 p)
            else if tk = sym_last then do_reltime_ref env p 0 end
            else if tk = sym_none then
              (if tag (cur p) = ''int'' then
                 (case do_int_literal p of
                    Inl e \<Rightarrow> Inl e
                  | Inr int_literal \<Rightarrow> do_reltime_ref env (advance 1 p) int_literal end)
               else
                 (case parse_abstime env (val (cur p)) of
                    Some tt \<Rightarrow> Inr (UnixNano tt, advance 1 p)
                  | None \<Rightarrow> Inl (fail_at p i InvalidTemporalReference)))
            else do_reltime_ref env p 0 end))"

subsection \<open>SINCE and BETWEEN\<close>

definition do_temp_since :: "go_env \<Rightarrow> Parser \<Rightarrow> error + Parser" where
  "do_temp_since env p =
     (if \<not> token_index p < num_tokens p then Inl Panic
      else case do_temp_ref env p False of
        Inl e \<Rightarrow> Inl e
      | Inr (t, p1) \<Rightarrow>
          Inr (tick (p1\<lparr>time_from := t, time_to := UnixNano (Now env (now_calls p1))\<rparr>)))"

definition do_temp_between :: "go_env \<Rightarrow> Parser \<Rightarrow> error + Parser" where
  "do_temp_between env p =
     (if \<not> token_index p < num_tokens p then Inl Panic
      else case do_temp_ref env p False of
        Inl e \<Rightarrow> Inl e
      | Inr (t1, p1) \<Rightarrow>
          (let p2 = p1\<lparr>time_from := t1\<rparr>
           in if \<not> token_index p2 < num_tokens p2 then Inl Panic
              else if token (cur p2) \<noteq> sym_and
              then Inl (fail_at p2 (token_index p2) MissingAnd)
              else case do_temp_ref env (advance 1 p2) True of
                Inl e \<Rightarrow> Inl e
              | Inr (t2, p3) \<Rightarrow> Inr (p3\<lparr>time_to := t2\<rparr>)))"

text \<open>Swap start and end time when the end time is before the start time.\<close>

definition swap_times :: "Parser \<Rightarrow> Parser" where
  "swap_times p =
     (if time_from p > time_to p
      then p\<lparr>time_from := time_to p, time_to := time_from p\<rparr> else p)"

definition do_temp_cond :: "go_env \<Rightarrow> Parser \<Rightarrow> error + Parser" where
  "do_temp_cond env p =
     (if \<not> token_index p < num_tokens p then Inl Panic
      else if token (cur p) = sym_since then
        (case do_temp_since env (advance 1 p) of
           Inl e \<Rightarrow> Inl e
         | Inr p' \<Rightarrow> Inr (swap_times p'))
      else if token (cur p) = sym_between then
        (case do_temp_between env (advance 1 p) of
           Inl e \<Rightarrow> Inl e
         | Inr p' \<Rightarrow> Inr (swap_times p'))
      else Inr (swap_times p))"


section \<open>The FIND statement\<close>

text \<open>
  \<^verbatim>\<open>do_derived_field\<close>: only the straight retrieval of a field, with an optional alias,
  is implemented; for an int, float or string literal the function returns nil and
  leaves the cursor where it is.
\<close>

definition do_derived_field :: "Parser \<Rightarrow> error + Parser" where
  "do_derived_field p =
     (if \<not> token_index p < num_tokens p then Inl Panic
      else if tag (cur p) = ''int'' then Inr p
      else if tag (cur p) = ''float'' then Inr p
      else if tag (cur p) = ''string'' then Inr p
      else if tag (cur p) = ''ident'' then
        (let field = val (cur p);
             p1 = p\<lparr>fields_list := fields_list p @ [field]\<rparr>
         in if token_index p1 + 2 < num_tokens p1 \<and> tok_at p1 (token_index p1 + 1) = sym_as
            then Inr (advance 3 (p1\<lparr>field_aliases := field_aliases p1 @ [val (cur p1)]\<rparr>))
            else Inr (advance 1 (p1\<lparr>field_aliases := field_aliases p1 @ [field]\<rparr>)))
      else Inl (fail_at p (token_index p) UnexpectedClauseDerived))"

text \<open>
  The loop of \<^verbatim>\<open>do_stmt_sublist\<close>, with its counter \<^verbatim>\<open>sublist\<close>. Nothing in the loop
  bounds the number of its iterations, so it is a partial function: \<open>None\<close> is a loop
  that never ends.
\<close>

partial_function (option) do_stmt_sublist_loop ::
    "Parser \<Rightarrow> int \<Rightarrow> (error + Parser \<times> int) option" where
  "do_stmt_sublist_loop p sublist =
     (if token_index p < num_tokens p then
        (if token (cur p) = sym_comma then
           (if sublist < 1 \<or> (token_index p + 1 < num_tokens p
                                \<and> tok_at p (token_index p + 1) \<noteq> sym_none)
            then Some (Inl (fail_at p (token_index p + 1) ExpectedSublist))
            else do_stmt_sublist_loop (advance 1 p) sublist)
         else if token (cur p) = sym_matching then Some (Inr (p, sublist))
         else if token (cur p) = sym_since then Some (Inr (p, sublist))
         else if token (cur p) = sym_between then Some (Inr (p, sublist))
         else if token (cur p) = sym_none then
           (case do_derived_field p of
              Inl e \<Rightarrow> Some (Inl e)
            | Inr p' \<Rightarrow> do_stmt_sublist_loop p' (i64 (sublist + 1)))
         else
           (if sublist < 1
            then Some (Inl (fail_at p (token_index p) UnexpectedClauseSublist))
            else do_stmt_sublist_loop p sublist))
      else Some (Inr (p, sublist)))"

declare do_stmt_sublist_loop.simps [code]

definition do_stmt_sublist :: "Parser \<Rightarrow> (error + Parser) option" where
  "do_stmt_sublist p =
     (if \<not> token_index p < num_tokens p then Some (Inl Panic)
      else case do_stmt_sublist_loop p 0 of
        None \<Rightarrow> None
      | Some (Inl e) \<Rightarrow> Some (Inl e)
      | Some (Inr (p', sublist)) \<Rightarrow>
          if sublist < 1 then Some (Inl (fail_at p' (token_index p') StatementCutShort))
          else Some (Inr p'))"

definition do_stmt_list :: "Parser \<Rightarrow> (error + Parser) option" where
  "do_stmt_list p =
     (if \<not> token_index p < num_tokens p then Some (Inl Panic)
      else if token (cur p) = sym_all
      then Some (Inr ((advance 1 p)\<lparr>find_flags := find_flags p OR find_flags_all\<rparr>))
      else do_stmt_sublist p)"

definition do_stmt :: "Parser \<Rightarrow> (error + Parser) option" where
  "do_stmt p =
     (if \<not> token_index p < num_tokens p then Some (Inl Panic)
      else if token (cur p) = sym_find then do_stmt_list (advance 1 p)
      else Some (Inr p))"

section \<open>The top level\<close>

text \<open>
  The three switches of \<^verbatim>\<open>do_syntax\<close>; each reads the token under the cursor.
\<close>

definition do_syntax_temporal :: "go_env \<Rightarrow> Parser \<Rightarrow> error + Parser" where
  "do_syntax_temporal env p =
     (if \<not> token_index p < num_tokens p then Inl Panic
      else if token (cur p) = sym_since then do_temp_cond env p
      else if token (cur p) = sym_between then do_temp_cond env p
      else Inl (fail_at p (token_index p) ExpectedTemporalClause))"

definition do_syntax_matching :: "Parser \<Rightarrow> error + Parser" where
  "do_syntax_matching p =
     (if \<not> token_index p < num_tokens p then Inl Panic
      else if token (cur p) = sym_matching then do_matching_cond (advance 1 p)
      else Inr p)"

definition do_syntax :: "go_env \<Rightarrow> Parser \<Rightarrow> (error + Parser) option" where
  "do_syntax env p =
     (if \<not> token_index p < num_tokens p then Some (Inl Panic)
      else if token (cur p) = sym_find then
        (case do_stmt p of
           None \<Rightarrow> None
         | Some (Inl e) \<Rightarrow> Some (Inl e)
         | Some (Inr p1) \<Rightarrow>
             (case do_syntax_matching p1 of
                Inl e \<Rightarrow> Some (Inl e)
              | Inr p2 \<Rightarrow> Some (do_syntax_temporal env p2)))
      else Some (Inl (fail_at p (token_index p) ExpectedStatement)))"

text \<open>
  The loop at the head of \<^verbatim>\<open>parser()\<close>: at the first pipe token, at index \<open>i\<close>,
  \<^verbatim>\<open>cmd2 = cmd[i+1:]\<close> and \<^verbatim>\<open>cmd = cmd[:i-1]\<close>, and a slice bound of \<open>-1\<close> panics.
  The third argument is the part of the token list not yet visited.
\<close>

fun pipe_split ::
    "lexer_token list \<Rightarrow> nat \<Rightarrow> lexer_token list
      \<Rightarrow> error + lexer_token list \<times> lexer_token list" where
  "pipe_split cmd i [] = Inr (cmd, [])"
| "pipe_split cmd i (t # ts) =
     (if token t = sym_pipe
      then (if i = 0 then Inl Panic else Inr (take (i - 1) cmd, drop (i + 1) cmd))
      else pipe_split cmd (i + 1) ts)"

text \<open>
  \<^verbatim>\<open>parser()\<close>: the two slices are computed and dropped (\<^verbatim>\<open>_ = cmd\<close>, \<^verbatim>\<open>_ = cmd2\<close>);
  the grammar runs from token 0 over \<^verbatim>\<open>p.tokens\<close>. The result is the error returned,
  or the parser structure as the call leaves it.
\<close>

definition parser :: "go_env \<Rightarrow> Parser \<Rightarrow> (error + Parser) option" where
  "parser env p =
     (case pipe_split (tokens p) 0 (tokens p) of
        Inl e \<Rightarrow> Some (Inl e)
      | Inr (cmd, cmd2) \<Rightarrow> do_syntax env (p\<lparr>token_index := 0\<rparr>))"

text \<open>The parser structure as \<^verbatim>\<open>TestParser\<close> sets it up: zero but for query and tokens.\<close>

definition new_Parser :: "string \<Rightarrow> lexer_token list \<Rightarrow> Parser" where
  "new_Parser q ts =
     \<lparr>query = q, tokens = ts, token_index = 0, fields_list = [], field_aliases = [],
      find_flags = 0, time_from = 0, time_to = 0, or_list = [], now_calls = 0\<rparr>"


text \<open>
  A query string is parsed as \<^verbatim>\<open>TestParser\<close> does it: the lexer, then the parser on
  its tokens. A lexer error ends the run before the parser is set up.
\<close>

datatype outcome = LexerError lex_error | ParserError error | Parsed Parser

definition parse :: "go_env \<Rightarrow> string \<Rightarrow> outcome option" where
  "parse env q =
     (case lexer q of
        Inl e \<Rightarrow> Some (LexerError e)
      | Inr ts \<Rightarrow>
          (case parser env (new_Parser q ts) of
             None \<Rightarrow> None
           | Some (Inl e) \<Rightarrow> Some (ParserError e)
           | Some (Inr p) \<Rightarrow> Some (Parsed p)))"

section \<open>A process in UTC\<close>

text \<open>
  One environment to run the parser in: the local time zone is UTC, the \<open>n\<close>-th call
  of \<^verbatim>\<open>time.Now()\<close> returns \<open>now0 + n\<close> nanoseconds, and timestamps are read in the
  three layouts the parser asks for, without fractional seconds.
\<close>

definition two_digits :: "string \<Rightarrow> (int \<times> string) option" where
  "two_digits s =
     (case s of
        a # b # rest \<Rightarrow>
          if is_digit a \<and> is_digit b then Some (digit_val a * 10 + digit_val b, rest) else None
      | _ \<Rightarrow> None)"

definition skip_char :: "char \<Rightarrow> string \<Rightarrow> string option" where
  "skip_char c s = (case s of x # rest \<Rightarrow> if x = c then Some rest else None | [] \<Rightarrow> None)"

definition days_in :: "int \<Rightarrow> int \<Rightarrow> int" where
  "days_in y m =
     (if m = 2 then (if y mod 4 = 0 \<and> (y mod 100 \<noteq> 0 \<or> y mod 400 = 0) then 29 else 28)
      else if m = 4 \<or> m = 6 \<or> m = 9 \<or> m = 11 then 30 else 31)"

definition read_date :: "string \<Rightarrow> (int \<times> string) option" where
  "read_date s =
     (case two_digits s of None \<Rightarrow> None | Some (c, s1) \<Rightarrow>
      case two_digits s1 of None \<Rightarrow> None | Some (yy, s2) \<Rightarrow>
      case skip_char CHR ''-'' s2 of None \<Rightarrow> None | Some s3 \<Rightarrow>
      case two_digits s3 of None \<Rightarrow> None | Some (m, s4) \<Rightarrow>
      case skip_char CHR ''-'' s4 of None \<Rightarrow> None | Some s5 \<Rightarrow>
      case two_digits s5 of None \<Rightarrow> None | Some (d, s6) \<Rightarrow>
        if 1 \<le> m \<and> m \<le> 12 \<and> 1 \<le> d \<and> d \<le> days_in (c * 100 + yy) m
        then Some (days_from_civil (c * 100 + yy) m d * temp_day, s6) else None)"

definition read_clock :: "string \<Rightarrow> (int \<times> string) option" where
  "read_clock s =
     (case two_digits s of None \<Rightarrow> None | Some (h, s1) \<Rightarrow>
      case skip_char CHR '':'' s1 of None \<Rightarrow> None | Some s2 \<Rightarrow>
      case two_digits s2 of None \<Rightarrow> None | Some (mi, s3) \<Rightarrow>
      case skip_char CHR '':'' s3 of None \<Rightarrow> None | Some s4 \<Rightarrow>
      case two_digits s4 of None \<Rightarrow> None | Some (se, s5) \<Rightarrow>
        if h < 24 \<and> mi < 60 \<and> se < 60
        then Some (h * temp_hour + mi * temp_minute + se * temp_second, s5) else None)"

definition utc_Parse :: "string \<Rightarrow> string \<Rightarrow> go_time option" where
  "utc_Parse layout v =
     (if layout = time_DateTime then
        (case read_date v of None \<Rightarrow> None | Some (d, s1) \<Rightarrow>
         case skip_char CHR '' '' s1 of None \<Rightarrow> None | Some s2 \<Rightarrow>
         case read_clock s2 of None \<Rightarrow> None | Some (c, s3) \<Rightarrow>
           if s3 = [] then Some (d + c) else None)
      else if layout = time_DateOnly then
        (case read_date v of None \<Rightarrow> None | Some (d, s1) \<Rightarrow>
           if s1 = [] then Some d else None)
      else if layout = time_TimeOnly then
        (case read_clock v of None \<Rightarrow> None | Some (c, s1) \<Rightarrow>
           if s1 = [] then Some (days_from_civil 0 1 1 * temp_day + c) else None)
      else None)"

definition utc_env :: "go_time \<Rightarrow> go_env" where
  "utc_env now0 =
     \<lparr>Now = (\<lambda>n. now0 + int n), local_AddDate = AddDate_UTC, local_Year = Year_UTC,
      local_Month = Month_UTC, local_Weekday = Weekday_UTC, time_Parse = utc_Parse\<rparr>"


section \<open>Sample statements\<close>

text \<open>The instant 2023-11-14 22:13:20.123456789 UTC, a Tuesday.\<close>

definition env0 :: go_env where
  "env0 = utc_env 1700000000123456789"

text \<open>
  The lexer under \<^verbatim>\<open>src\<close> never emits the symbols \<^verbatim>\<open>sym_and\<close> and \<^verbatim>\<open>sym_or\<close>: the rule
  tagged ident comes before the rules tagged and, or in \<^verbatim>\<open>lexer_regex_table\<close>, so the
  words AND and OR are identifiers. Statements that need them are given to the parser
  as token lists, each word with the symbol \<^verbatim>\<open>lexer_symbol_table\<close> has for it.
\<close>

definition tk :: "string \<Rightarrow> sym \<Rightarrow> string \<Rightarrow> nat \<Rightarrow> lexer_token" where
  "tk t sy v pos = \<lparr>tag = t, token = sy, val = v, stmt_pos = pos\<rparr>"

definition q_between_reversed :: string where
  "q_between_reversed = ''FIND src_ip BETWEEN YESTERDAY AND DAY BEFORE YESTERDAY''"

definition tokens_between_reversed :: "lexer_token list" where
  "tokens_between_reversed =
     [tk ''command'' sym_find ''FIND'' 0, tk ''ident'' sym_none ''src_ip'' 5,
      tk ''temporal'' sym_between ''BETWEEN'' 12, tk ''relative'' sym_yesterday ''YESTERDAY'' 20,
      tk ''and'' sym_and ''AND'' 30, tk ''calendar'' sym_day ''DAY'' 34,
      tk ''relative'' sym_before ''BEFORE'' 38, tk ''relative'' sym_yesterday ''YESTERDAY'' 45]"

text \<open>The time range of a successful parse.\<close>

definition parsed_range :: "outcome option \<Rightarrow> (int \<times> int) option" where
  "parsed_range r =
     (case r of Some (Parsed p) \<Rightarrow> Some (time_from p, time_to p) | _ \<Rightarrow> None)"

section \<open>The time range is ordered\<close>

lemma swap_times_ordered: "time_from (swap_times p) \<le> time_to (swap_times p)"
  by (simp add: swap_times_def)

lemma do_temp_cond_ordered:
  "do_temp_cond env p = Inr p' \<Longrightarrow> time_from p' \<le> time_to p'"
  by (auto simp: do_temp_cond_def swap_times_ordered split: if_splits sum.splits)

lemma do_syntax_temporal_ordered:
  "do_syntax_temporal env p = Inr p' \<Longrightarrow> time_from p' \<le> time_to p'"
  by (auto simp: do_syntax_temporal_def dest: do_temp_cond_ordered split: if_splits)

lemma do_syntax_ordered:
  "do_syntax env p = Some (Inr p') \<Longrightarrow> time_from p' \<le> time_to p'"
  by (auto simp: do_syntax_def dest: do_syntax_temporal_ordered
           split: if_splits option.splits sum.splits)

text \<open>
  Claim C1. Whenever \<^verbatim>\<open>parser()\<close> returns without error, on any token list (so also on
  the tokens of any query string, for the SINCE and for the BETWEEN form), the resolved
  time range satisfies \<open>time_from \<le> time_to\<close>: every successful return goes through the
  swap at the end of \<^verbatim>\<open>do_temp_cond\<close>.
\<close>

theorem parser_time_range_ordered:
  "parser env p = Some (Inr p') \<Longrightarrow> time_from p' \<le> time_to p'"
  by (auto simp: parser_def dest: do_syntax_ordered split: sum.splits)

text \<open>
  The two references in reverse chronological order: the start of yesterday is computed
  for \<open>time_from\<close>, the end of the day before for \<open>time_to\<close>, and the two are swapped.
\<close>

theorem parser_time_range_ordered_witness:
  "parser env0 (new_Parser q_between_reversed tokens_between_reversed)
     = Some (Inr ((new_Parser q_between_reversed tokens_between_reversed)
          \<lparr>token_index := 8, fields_list := [''src_ip''], field_aliases := [''src_ip''],
           time_from := 1699833599000000000, time_to := 1699833600000000000,
           now_calls := 2\<rparr>))
   \<and> (1699833599000000000 :: int) \<le> 1699833600000000000"
proof -
  let ?r = "(new_Parser q_between_reversed tokens_between_reversed)
          \<lparr>token_index := 8, fields_list := [''src_ip''], field_aliases := [''src_ip''],
           time_from := 1699833599000000000, time_to := 1699833600000000000,
           now_calls := 2\<rparr>"
  have run: "parser env0 (new_Parser q_between_reversed tokens_between_reversed)
      = Some (Inr ?r)"
    by code_simp
  from parser_time_range_ordered [OF run] run show ?thesis by simp
qed


section \<open>A field list that never ends\<close>

text \<open>
  A literal field: the cursor is on a token that is no symbol and whose tag is int,
  float or string. \<^verbatim>\<open>do_stmt_sublist\<close> hands it to \<^verbatim>\<open>do_derived_field\<close>, which returns
  nil without moving the cursor.
\<close>

definition literal_field :: "Parser \<Rightarrow> bool" where
  "literal_field p =
     (token_index p < num_tokens p \<and> token (cur p) = sym_none
       \<and> (tag (cur p) = ''int'' \<or> tag (cur p) = ''float'' \<or> tag (cur p) = ''string''))"

lemma do_derived_field_literal: "literal_field p \<Longrightarrow> do_derived_field p = Inr p"
  by (auto simp: literal_field_def do_derived_field_def)

text \<open>
  By fixpoint induction: a loop that returns was not started on a literal field, since
  the next iteration would start on the same one.
\<close>

lemma do_stmt_sublist_loop_returns:
  assumes "do_stmt_sublist_loop p sublist = Some r"
  shows "\<not> literal_field p"
proof (rule do_stmt_sublist_loop.raw_induct
         [where P = "\<lambda>p sublist r. \<not> literal_field p", OF _ assms], goal_cases)
  case (1 loop p sublist r)
  note IH = 1(1) and body = 1(2)
  show ?case
  proof
    assume lit: "literal_field p"
    then have "token_index p < num_tokens p" "token (cur p) = sym_none"
      by (simp_all add: literal_field_def)
    with body lit have "loop p (i64 (sublist + 1)) = Some r"
      by (simp add: do_derived_field_literal sym_defs)
    from IH [OF this] lit show False by simp
  qed
qed

lemma do_stmt_sublist_loop_diverges:
  "literal_field p \<Longrightarrow> do_stmt_sublist_loop p sublist = None"
  using do_stmt_sublist_loop_returns [of p sublist]
  by (cases "do_stmt_sublist_loop p sublist") auto

lemma pipe_split_later: "0 < i \<Longrightarrow> \<exists>x. pipe_split cmd i ts = Inr x"
  by (induction ts arbitrary: i) auto

lemma parser_diverges_on_literal_field:
  assumes ts: "tokens p = t0 # t1 # rest"
    and t0: "token t0 = sym_find"
    and t1: "token t1 = sym_none"
    and lit: "tag t1 = ''int'' \<or> tag t1 = ''float'' \<or> tag t1 = ''string''"
  shows "parser env p = None"
proof -
  let ?p0 = "p\<lparr>token_index := 0\<rparr>"
  let ?p1 = "advance 1 ?p0"
  from pipe_split_later [of "Suc (Suc 0)" "tokens p" rest]
  obtain x where "pipe_split (tokens p) (Suc (Suc 0)) rest = Inr x" by auto
  with ts t0 t1 have split: "pipe_split (tokens p) 0 (tokens p) = Inr x"
    by (simp add: sym_defs)
  from ts t1 lit have "literal_field ?p1"
    by (simp add: literal_field_def advance_def num_tokens_def cur_def)
  then have "do_stmt_sublist_loop ?p1 0 = None" by (rule do_stmt_sublist_loop_diverges)
  with ts t1 have "do_stmt_list ?p1 = None"
    by (simp add: do_stmt_list_def do_stmt_sublist_def advance_def num_tokens_def cur_def sym_defs)
  with ts t0 have "do_syntax env ?p0 = None"
    by (simp add: do_syntax_def do_stmt_def num_tokens_def cur_def)
  with split show ?thesis by (simp add: parser_def split: prod.splits)
qed

text \<open>
  Claim C2 says that the parser terminates on every token sequence, in particular on
  a field list with an int, float or string literal. The code does not: on the query
  \<^verbatim>\<open>FIND 5 SINCE LAST HOUR\<close> the lexer returns five tokens and the parser never
  returns, in any environment, because the loop of \<^verbatim>\<open>do_stmt_sublist\<close> stays on the
  token \<^verbatim>\<open>5\<close> for ever.
\<close>

theorem parse_literal_field_never_returns:
  "lexer ''FIND 5 SINCE LAST HOUR'' =
      Inr [tk ''command'' sym_find ''FIND'' 0, tk ''int'' sym_none ''5'' 5,
           tk ''temporal'' sym_since ''SINCE'' 7, tk ''relative'' sym_last ''LAST'' 13,
           tk ''clock'' sym_hour ''HOUR'' 18]
   \<and> parse env ''FIND 5 SINCE LAST HOUR'' = None"
proof -
  have lx: "lexer ''FIND 5 SINCE LAST HOUR'' =
      Inr [tk ''command'' sym_find ''FIND'' 0, tk ''int'' sym_none ''5'' 5,
           tk ''temporal'' sym_since ''SINCE'' 7, tk ''relative'' sym_last ''LAST'' 13,
           tk ''clock'' sym_hour ''HOUR'' 18]"
    by code_simp
  have "parser env (new_Parser ''FIND 5 SINCE LAST HOUR''
           [tk ''command'' sym_find ''FIND'' 0, tk ''int'' sym_none ''5'' 5,
            tk ''temporal'' sym_since ''SINCE'' 7, tk ''relative'' sym_last ''LAST'' 13,
            tk ''clock'' sym_hour ''HOUR'' 18]) = None"
    by (rule parser_diverges_on_literal_field [where ?t0.0 = "tk ''command'' sym_find ''FIND'' 0"
          and ?t1.0 = "tk ''int'' sym_none ''5'' 5"])
       (simp_all add: new_Parser_def tk_def)
  with lx show ?thesis by (simp add: parse_def)
qed


section \<open>A statement without temporal clause\<close>

text \<open>
  Claim C3 says that a query with neither SINCE nor BETWEEN, such as
  \<^verbatim>\<open>FIND src_ip\<close>, returns the error "expected temporal clause". On \<^verbatim>\<open>FIND src_ip\<close>
  the code does not return an error of the parser: the field list takes the cursor to
  the end of the tokens, and the second switch of \<^verbatim>\<open>do_syntax\<close> reads
  \<^verbatim>\<open>p.tokens[p.token_index]\<close> out of range, a run-time panic.
\<close>

theorem parse_find_field_only_panics:
  "parse env ''FIND src_ip'' = Some (ParserError Panic)"
  by code_simp

section \<open>Clock units\<close>

text \<open>
  Claim C4 says that \<^verbatim>\<open>LAST HOUR\<close> subtracts one hour from the current instant before
  truncating. The code subtracts \<^verbatim>\<open>time.Duration(3600 * times)\<close>, which is 3600
  nanoseconds: at 22:13:20.123456789 the start of the range is 22:00:00 of the same
  hour (1699999200 seconds after the epoch) and not 21:00:00 (1699995600 seconds).
  The same holds for minutes (60 nanoseconds) and seconds (1 nanosecond).
\<close>

theorem parse_last_hour_is_this_hour:
  "parsed_range (parse env0 ''FIND src_ip SINCE LAST HOUR'')
     = Some (1699999200000000000, 1700000000123456791)
   \<and> reltime_switch env sym_hour 1 c = Some (Truncate (c - 3600) time_Hour)
   \<and> reltime_switch env sym_minute 1 c = Some (Truncate (c - 60) time_Minute)
   \<and> reltime_switch env sym_second 1 c = Some (c - 1)"
proof -
  have "parsed_range (parse env0 ''FIND src_ip SINCE LAST HOUR'')
     = Some (1699999200000000000, 1700000000123456791)"
    by code_simp
  moreover have "i64 1 = 1" "i64 (- 1) = - 1" "i64 60 = 60" "i64 (- 60) = - 60"
    "i64 3600 = 3600" "i64 (- 3600) = - 3600"
    by (simp_all add: i64_def signed_take_bit_int_eq_self)
  ultimately show ?thesis
    by (simp add: reltime_switch_def Add_def sym_defs)
qed

section \<open>FOREVER\<close>

text \<open>
  Claim C5 says that \<^verbatim>\<open>SINCE FOREVER\<close> resolves to epoch zero. In the code
  \<^verbatim>\<open>lexer_symbol_table\<close> maps FOREVER to \<^verbatim>\<open>sym_between\<close>, and \<^verbatim>\<open>do_temp_ref\<close> has no
  case for \<^verbatim>\<open>sym_forever\<close> either: with the one symbol or the other the reference
  falls to \<^verbatim>\<open>do_reltime_ref\<close>, which reports an unexpected symbol.
\<close>

definition tokens_since_forever :: "lexer_token list" where
  "tokens_since_forever =
     [tk ''command'' sym_find ''FIND'' 0, tk ''ident'' sym_none ''src_ip'' 5,
      tk ''temporal'' sym_since ''SINCE'' 12, tk ''relative'' sym_forever ''FOREVER'' 18]"

theorem parse_since_forever_fails:
  "parse env ''FIND src_ip SINCE FOREVER''
     = Some (ParserError (SyntaxError UnexpectedSymbol ''FOREVER''))
   \<and> parser env (new_Parser ''FIND src_ip SINCE FOREVER'' tokens_since_forever)
     = Some (Inl (SyntaxError UnexpectedSymbol ''FOREVER''))"
proof -
  have "parse env ''FIND src_ip SINCE FOREVER''
     = Some (ParserError (SyntaxError UnexpectedSymbol ''FOREVER''))"
    by code_simp
  moreover have "parser env (new_Parser ''FIND src_ip SINCE FOREVER'' tokens_since_forever)
     = Some (Inl (SyntaxError UnexpectedSymbol ''FOREVER''))"
    by code_simp
  ultimately show ?thesis by simp
qed

section \<open>AGO without a count\<close>

text \<open>
  Claim C6. The statement \<^verbatim>\<open>FIND src_ip,dest_ip BETWEEN LAST MONTH AND FORTNIGHT AGO\<close>
  does not parse: in every process, lexer and parser together end in a syntax error and
  never in success. The error is raised by \<^verbatim>\<open>do_temp_between\<close> at the word AND. The
  lexer tags that word as an identifier (the rule tagged ident precedes the rule tagged
  and in \<^verbatim>\<open>lexer_regex_table\<close>), so after \<^verbatim>\<open>LAST MONTH\<close> the parser does not find
  \<^verbatim>\<open>sym_and\<close> and returns "missing AND"; the reference \<^verbatim>\<open>FORTNIGHT AGO\<close> is not
  reached.
\<close>

theorem parse_fortnight_ago_fails:
  "parse env ''FIND src_ip,dest_ip BETWEEN LAST MONTH AND FORTNIGHT AGO''
     = Some (ParserError (SyntaxError MissingAnd ''AND FORTNIGHT AGO''))"
  by code_simp


section \<open>YESTERDAY\<close>

lemma i64_id: "- (2 ^ 63) \<le> x \<Longrightarrow> x < 2 ^ 63 \<Longrightarrow> i64 x = x"
  by (simp add: i64_def signed_take_bit_int_eq_self)

lemma go_rem_nonneg: "0 \<le> a \<Longrightarrow> 0 < b \<Longrightarrow> go_rem a b = a mod b"
  by (cases "a = 0") (simp_all add: go_rem_def)

lemma round_back:
  fixes c n d :: int
  assumes d: "0 < d"
  shows "(c - n * d) - (c - n * d) mod d = (c div d - n) * d"
proof -
  have "(c - n * d) div d = c div d - n"
    using d by (metis add.commute diff_conv_add_uminus div_mult_self1 less_irrefl mult_minus_left)
  then show ?thesis by (simp add: minus_mod_eq_div_mult)
qed


lemma days_back_value:
  assumes n: "1 \<le> n" and lo: "n * temp_day \<le> c" and hi: "c < 2 ^ 63"
  shows "days_back c n end
    = (c div temp_day - n) * temp_day + (if end then temp_day - temp_second else 0)"
proof -
  have td: "temp_day = 86400000000000" and ts: "temp_second = 1000000000"
    by (simp_all add: temp_day_def temp_hour_def temp_minute_def temp_second_def)
  have pos: "0 < temp_day" by (simp add: td)
  define c1 where "c1 = c - n * temp_day"
  define c2 where "c2 = c1 - c1 mod temp_day"
  from n pos have "1 * temp_day \<le> n * temp_day" by (intro mult_right_mono) simp_all
  with lo have c1: "0 \<le> c1" "c1 + temp_day \<le> c" by (simp_all add: c1_def)
  from pos c1(1) have m: "0 \<le> c1 mod temp_day" "c1 mod temp_day \<le> c1"
    by (simp_all add: zmod_le_nonneg_dividend)
  then have c2: "0 \<le> c2" "c2 \<le> c1" by (simp_all add: c2_def)
  have c2v: "c2 = (c div temp_day - n) * temp_day"
    unfolding c2_def c1_def by (rule round_back [OF pos])
  have e1: "i64 c1 = c1" using c1 hi pos by (intro i64_id) linarith+
  have e2: "i64 c2 = c2" using c1 c2 hi pos by (intro i64_id) linarith+
  have e3: "i64 (c2 + (temp_day - temp_second)) = c2 + (temp_day - temp_second)"
    using c1 c2 hi by (intro i64_id) (simp_all add: td ts)
  have r: "go_rem c1 temp_day = c1 mod temp_day"
    using c1(1) pos by (rule go_rem_nonneg)
  have "days_back c n end = (if end then i64 (c2 + (temp_day - temp_second)) else c2)"
    by (simp add: days_back_def Let_def c1_def [symmetric] e1 r c2_def [symmetric] e2)
  with e3 c2v show ?thesis by simp
qed


text \<open>A parser whose cursor is on one temporal reference.\<close>

definition p_yesterday :: Parser where
  "p_yesterday = new_Parser ''YESTERDAY'' [tk ''relative'' sym_yesterday ''YESTERDAY'' 0]"

definition p_day_before_yesterday :: Parser where
  "p_day_before_yesterday = new_Parser ''DAY BEFORE YESTERDAY''
     [tk ''calendar'' sym_day ''DAY'' 0, tk ''relative'' sym_before ''BEFORE'' 4,
      tk ''relative'' sym_yesterday ''YESTERDAY'' 11]"

text \<open>
  Claim C7, as the code has it. When the clock reads between two days after the epoch
  and the end of the int64 range, \<^verbatim>\<open>YESTERDAY\<close> resolves to the current instant minus
  one day, rounded back to midnight UTC of that day; with \<open>end\<close> it is that midnight
  plus \<^verbatim>\<open>temp_day - temp_second\<close>, which is 23:59:59.000000000 of the same day.
  \<^verbatim>\<open>DAY BEFORE YESTERDAY\<close> does the same two days back.
\<close>

theorem yesterday_bounds:
  assumes idx: "token_index p < num_tokens p"
    and lo: "2 * temp_day \<le> Now env (now_calls p)"
    and hi: "Now env (now_calls p) < 2 ^ 63"
  shows "(token (cur p) = sym_yesterday \<longrightarrow>
           do_temp_ref env p end =
             Inr ((Now env (now_calls p) div temp_day - 1) * temp_day
                    + (if end then temp_day - temp_second else 0),
                  advance 1 (tick p)))
       \<and> (token (cur p) = sym_day \<and> token_index p + 2 < num_tokens p
            \<and> tok_at p (token_index p + 1) = sym_before
            \<and> tok_at p (token_index p + 2) = sym_yesterday \<longrightarrow>
           do_temp_ref env p end =
             Inr ((Now env (now_calls p) div temp_day - 2) * temp_day
                    + (if end then temp_day - temp_second else 0),
                  advance 3 (tick p)))"
proof -
  let ?now = "Now env (now_calls p)"
  have pos: "0 < temp_day"
    by (simp add: temp_day_def temp_hour_def temp_minute_def temp_second_def)
  with lo have lo0: "- (2 ^ 63) \<le> ?now" and lo1: "1 * temp_day \<le> ?now" by simp_all
  have u: "UnixNano ?now = ?now" unfolding UnixNano_def using lo0 hi by (rule i64_id)
  have d1: "days_back ?now 1 end
      = (?now div temp_day - 1) * temp_day + (if end then temp_day - temp_second else 0)"
    using lo1 hi by (intro days_back_value) simp_all
  have d2: "days_back ?now 2 end
      = (?now div temp_day - 2) * temp_day + (if end then temp_day - temp_second else 0)"
    using lo hi by (intro days_back_value) simp_all
  have c: "cur (tick p) = cur p" "token_index (tick p) = token_index p"
    "num_tokens (tick p) = num_tokens p" "tok_at (tick p) = tok_at p"
    by (simp_all add: tick_def cur_def num_tokens_def tok_at_def fun_eq_iff)
  show ?thesis
    using idx by (simp add: do_temp_ref_def Let_def u d1 d2 c sym_defs)
qed

theorem yesterday_bounds_witness:
  "do_temp_ref env0 p_yesterday False = Inr (1699833600000000000, advance 1 (tick p_yesterday))
   \<and> do_temp_ref env0 p_yesterday True = Inr (1699919999000000000, advance 1 (tick p_yesterday))
   \<and> do_temp_ref env0 p_day_before_yesterday False
        = Inr (1699747200000000000, advance 3 (tick p_day_before_yesterday))
   \<and> do_temp_ref env0 p_day_before_yesterday True
        = Inr (1699833599000000000, advance 3 (tick p_day_before_yesterday))"
proof -
  have now: "Now env0 (now_calls p_yesterday) = 1700000000123456789"
    "Now env0 (now_calls p_day_before_yesterday) = 1700000000123456789"
    by (simp_all add: env0_def utc_env_def p_yesterday_def p_day_before_yesterday_def
          new_Parser_def)
  have td: "temp_day = 86400000000000" and ts: "temp_second = 1000000000"
    by (simp_all add: temp_day_def temp_hour_def temp_minute_def temp_second_def)
  have y: "token_index p_yesterday < num_tokens p_yesterday"
    "token (cur p_yesterday) = sym_yesterday"
    by (simp_all add: p_yesterday_def new_Parser_def num_tokens_def cur_def tk_def)
  have d: "token_index p_day_before_yesterday < num_tokens p_day_before_yesterday"
    "token (cur p_day_before_yesterday) = sym_day
       \<and> token_index p_day_before_yesterday + 2 < num_tokens p_day_before_yesterday
       \<and> tok_at p_day_before_yesterday (token_index p_day_before_yesterday + 1) = sym_before
       \<and> tok_at p_day_before_yesterday (token_index p_day_before_yesterday + 2) = sym_yesterday"
    by (simp_all add: p_day_before_yesterday_def new_Parser_def num_tokens_def cur_def tk_def
          tok_at_def)
  have lo: "2 * temp_day \<le> Now env0 (now_calls p_yesterday)"
    "2 * temp_day \<le> Now env0 (now_calls p_day_before_yesterday)"
    and hi: "Now env0 (now_calls p_yesterday) < 2 ^ 63"
    "Now env0 (now_calls p_day_before_yesterday) < 2 ^ 63"
    by (simp_all add: now td)
  from yesterday_bounds [OF y(1) lo(1) hi(1), of False] yesterday_bounds [OF y(1) lo(1) hi(1), of True]
    yesterday_bounds [OF d(1) lo(2) hi(2), of False] yesterday_bounds [OF d(1) lo(2) hi(2), of True]
    y(2) d(2)
  show ?thesis by (simp add: now td ts)
qed

text \<open>
  Claim C7 as stated gives 23:59:59.999999999 for the end bound. At 22:13:20 on
  2023-11-14 the end of yesterday is 1699919999 seconds after the epoch exactly, one
  second before midnight, and not the last nanosecond of 2023-11-13.
\<close>

theorem yesterday_end_counterexample:
  "do_temp_ref env0 p_yesterday True = Inr (1699919999000000000, advance 1 (tick p_yesterday))
   \<and> do_temp_ref env0 p_yesterday False = Inr (1699833600000000000, advance 1 (tick p_yesterday))
   \<and> (1699919999000000000 :: int) \<noteq> 1699833600000000000 + temp_day - 1"
proof -
  have "do_temp_ref env0 p_yesterday True
      = Inr (1699919999000000000, advance 1 (tick p_yesterday))" by code_simp
  moreover have "do_temp_ref env0 p_yesterday False
      = Inr (1699833600000000000, advance 1 (tick p_yesterday))" by code_simp
  moreover have "(1699919999000000000 :: int) \<noteq> 1699833600000000000 + temp_day - 1"
    by (simp add: temp_day_def temp_hour_def temp_minute_def temp_second_def)
  ultimately show ?thesis by simp
qed



section \<open>Month names\<close>

text \<open>
  The full month names longer than their abbreviation: the abbreviation, the letters
  that remain, and the symbol of the abbreviation.
\<close>

definition long_months :: "(string \<times> string \<times> sym) list" where
  "long_months =
     [(''JAN'', ''UARY'', sym_january), (''FEB'', ''RUARY'', sym_february),
      (''MAR'', ''CH'', sym_march), (''APR'', ''IL'', sym_april),
      (''JUN'', ''E'', sym_june), (''JUL'', ''Y'', sym_july),
      (''AUG'', ''UST'', sym_august), (''SEP'', ''TEMBER'', sym_september),
      (''OCT'', ''OBER'', sym_october), (''NOV'', ''EMBER'', sym_november),
      (''DEC'', ''EMBER'', sym_december)]"

text \<open>
  What may follow a word in the text the loop works on: nothing, or a character that
  cannot continue an identifier; the text never ends in white space, since the lexer
  trims it.
\<close>

definition ends_word :: "string \<Rightarrow> bool" where
  "ends_word tail =
     (case tail of [] \<Rightarrow> True | c # cs \<Rightarrow> \<not> is_ident_char c \<and> \<not> is_space (last tail))"

text \<open>The pattern tagged mon in \<^verbatim>\<open>lexer_regex_table\<close>.\<close>

definition mon_rule :: rx where
  "mon_rule = Kw True [''JAN'', ''FEB'', ''MAR'', ''APR'', ''MAY'', ''JUN'', ''JUL'', ''AUG'',
                       ''SEP'', ''OCT'', ''NOV'', ''DEC''] False"

lemma lexer_loop_step:
  assumes "s \<noteq> []" and "first_match lexer_regex_table s = Some (t, r)"
    and "make_token t (FindString r s) pos = Inr newtoken"
  shows "lexer_loop s pos toks =
     lexer_loop (TrimSpace (ReplaceAllString r s))
       (pos + (length s - length (TrimSpace (ReplaceAllString r s)))) (toks @ [newtoken])"
  using assms by (subst lexer_loop.simps) (simp add: Let_def)

lemma lower_alpha: "is_alpha a \<Longrightarrow> is_alpha (lower a)"
  by (auto simp: is_alpha_def lower_def)

lemma lower_other: "\<not> is_alpha c \<Longrightarrow> lower c = c"
  by (auto simp: is_alpha_def lower_def)

lemma eq_char_alpha: "is_alpha a \<Longrightarrow> \<not> is_alpha c \<Longrightarrow> \<not> eq_char ci a c"
  using lower_alpha [of a] lower_other [of c] by (auto simp: eq_char_def)

lemma prefix_match_stops:
  assumes "ends_word tail" and "is_alpha a"
  shows "prefix_match ci (a # as) tail = False"
proof (cases tail)
  case Nil
  then show ?thesis by simp
next
  case (Cons c cs)
  with assms have "\<not> is_alpha c" by (simp add: ends_word_def is_ident_char_def)
  with assms Cons show ?thesis by (simp add: eq_char_alpha)
qed

lemma takeWhile_ends_word: "ends_word tail \<Longrightarrow> takeWhile is_ident_char tail = []"
  by (cases tail) (simp_all add: ends_word_def)

lemma dropWhile_rev_last: "\<not> P (last xs) \<Longrightarrow> xs \<noteq> [] \<Longrightarrow> dropWhile P (rev xs) = rev xs"
  by (cases xs rule: rev_cases) simp_all

lemma TrimSpace_word:
  assumes w: "w \<noteq> []" "\<not> is_space (hd w)" "\<not> is_space (last w)" and t: "ends_word tail"
  shows "TrimSpace (w @ tail) = w @ tail"
proof -
  from w have a: "dropWhile is_space (w @ tail) = w @ tail" by (cases w) simp_all
  from w t have "\<not> is_space (last (w @ tail))"
    by (cases tail) (simp_all add: ends_word_def)
  moreover from w have "w @ tail \<noteq> []" by simp
  ultimately have "dropWhile is_space (rev (w @ tail)) = rev (w @ tail)"
    by (rule dropWhile_rev_last)
  with a show ?thesis by (simp add: TrimSpace_def del: rev_append)
qed



lemma mon_first_all:
  "\<forall>(abbr, letters, sy) \<in> set long_months.
     first_match lexer_regex_table (abbr @ letters @ tail) = Some (''mon'', mon_rule)
     \<and> FindString mon_rule (abbr @ letters @ tail) = abbr
     \<and> make_token ''mon'' abbr pos = Inr (tk ''mon'' sy abbr pos)
     \<and> length abbr = 3"
  by (simp add: long_months_def lexer_regex_table_def mon_rule_def eq_char_def lower_bits
        make_token_def lexer_symbol_table_def tk_def)


lemma letters_ident_all:
  assumes "ends_word tail"
  shows "\<forall>(abbr, letters, sy) \<in> set long_months.
     first_match lexer_regex_table (letters @ tail) = Some (''ident'', RxIdent)
     \<and> head_ident (letters @ tail) = letters
     \<and> make_token ''ident'' letters pos = Inr (tk ''ident'' sym_none letters pos)
     \<and> letters \<noteq> [] \<and> \<not> is_space (hd letters) \<and> \<not> is_space (last letters)"
  using assms
  by (simp add: long_months_def lexer_regex_table_def eq_char_def lower_bits
        make_token_def tk_def prefix_match_stops takeWhile_ends_word string_find_def
        head_ident_def is_ident_start_def is_ident_char_def is_alpha_def is_space_def
        trim_brackets_def sym_defs)


text \<open>
  Claim C10, for the eleven month names longer than three letters. When the loop of
  the lexer reaches such a name in upper case, followed by the end of the text or by a
  character that cannot continue an identifier, its next two tokens are the month
  token of the abbreviation (tag mon) and an identifier token holding the remaining
  letters: the pattern tagged mon has no trailing word boundary and comes before the
  pattern tagged months. The loop then goes on with the rest of the text.
\<close>

theorem month_name_two_tokens:
  assumes m: "(abbr, letters, sy) \<in> set long_months" and t: "ends_word tail"
  shows "lexer_loop (abbr @ letters @ tail) pos toks =
     lexer_loop (TrimSpace (remove_brackets tail))
       (pos + 3 + (length letters + length tail - length (TrimSpace (remove_brackets tail))))
       (toks @ [tk ''mon'' sy abbr pos, tk ''ident'' sym_none letters (pos + 3)])"
proof -
  let ?s = "abbr @ letters @ tail"
  from mon_first_all [of tail pos] m
  have f1: "first_match lexer_regex_table ?s = Some (''mon'', mon_rule)"
    and g1: "FindString mon_rule ?s = abbr"
    and k1: "make_token ''mon'' abbr pos = Inr (tk ''mon'' sy abbr pos)"
    and l1: "length abbr = 3"
    by blast+
  from letters_ident_all [OF t, of "pos + 3"] m
  have f2: "first_match lexer_regex_table (letters @ tail) = Some (''ident'', RxIdent)"
    and g2: "head_ident (letters @ tail) = letters"
    and k2: "make_token ''ident'' letters (pos + 3) = Inr (tk ''ident'' sym_none letters (pos + 3))"
    and l2: "letters \<noteq> []" "\<not> is_space (hd letters)" "\<not> is_space (last letters)"
    by blast+
  from l1 have ne1: "?s \<noteq> []" by auto
  have r1: "ReplaceAllString mon_rule ?s = letters @ tail"
    using g1 by (simp add: mon_rule_def)
  have t1: "TrimSpace (letters @ tail) = letters @ tail"
    using l2 t by (rule TrimSpace_word)
  have step1: "lexer_loop ?s pos toks
      = lexer_loop (letters @ tail) (pos + 3) (toks @ [tk ''mon'' sy abbr pos])"
    using lexer_loop_step [OF ne1 f1, of pos "tk ''mon'' sy abbr pos" toks] k1 g1 r1 t1 l1
    by simp
  from l2 have ne2: "letters @ tail \<noteq> []" by simp
  have g2': "FindString RxIdent (letters @ tail) = letters" using g2 l2 by simp
  have r2: "ReplaceAllString RxIdent (letters @ tail) = remove_brackets tail"
    using g2 by simp
  have step2: "lexer_loop (letters @ tail) (pos + 3) (toks @ [tk ''mon'' sy abbr pos])
      = lexer_loop (TrimSpace (remove_brackets tail))
          (pos + 3 + (length letters + length tail - length (TrimSpace (remove_brackets tail))))
          ((toks @ [tk ''mon'' sy abbr pos]) @ [tk ''ident'' sym_none letters (pos + 3)])"
    using lexer_loop_step [OF ne2 f2, of "pos + 3" "tk ''ident'' sym_none letters (pos + 3)"
        "toks @ [tk ''mon'' sy abbr pos]"] k2 g2' r2
    by simp
  from step1 step2 show ?thesis by simp
qed

theorem month_name_two_tokens_witness:
  "(''APR'', ''IL'', sym_april) \<in> set long_months \<and> ends_word []
   \<and> lexer_loop ''APRIL'' 11
        [tk ''temporal'' sym_since ''SINCE'' 0, tk ''relative'' sym_last ''LAST'' 6]
      = Inr [tk ''temporal'' sym_since ''SINCE'' 0, tk ''relative'' sym_last ''LAST'' 6,
             tk ''mon'' sym_april ''APR'' 11, tk ''ident'' sym_none ''IL'' 14]
   \<and> lexer ''SINCE LAST APRIL''
      = Inr [tk ''temporal'' sym_since ''SINCE'' 0, tk ''relative'' sym_last ''LAST'' 6,
             tk ''mon'' sym_april ''APR'' 11, tk ''ident'' sym_none ''IL'' 14]"
proof -
  have m: "(''APR'', ''IL'', sym_april) \<in> set long_months" by (simp add: long_months_def)
  have t: "ends_word []" by (simp add: ends_word_def)
  have e: "TrimSpace [] = []" by (simp add: TrimSpace_def)
  have n: "\<And>pos toks. lexer_loop [] pos toks = Inr toks"
    by (subst lexer_loop.simps) simp
  have l: "lexer ''SINCE LAST APRIL''
      = Inr [tk ''temporal'' sym_since ''SINCE'' 0, tk ''relative'' sym_last ''LAST'' 6,
             tk ''mon'' sym_april ''APR'' 11, tk ''ident'' sym_none ''IL'' 14]"
    by code_simp
  from month_name_two_tokens [OF m t, of 11
      "[tk ''temporal'' sym_since ''SINCE'' 0, tk ''relative'' sym_last ''LAST'' 6]"]
  have "lexer_loop ''APRIL'' 11
        [tk ''temporal'' sym_since ''SINCE'' 0, tk ''relative'' sym_last ''LAST'' 6]
      = Inr [tk ''temporal'' sym_since ''SINCE'' 0, tk ''relative'' sym_last ''LAST'' 6,
             tk ''mon'' sym_april ''APR'' 11, tk ''ident'' sym_none ''IL'' 14]"
    by (simp add: e n)
  with m t l show ?thesis by simp
qed

text \<open>
  Claim C10 as stated includes MAY among the full month names. MAY is its own
  abbreviation: the lexer emits the month token and no identifier token after it.
\<close>

theorem month_may_counterexample:
  "lexer ''SINCE LAST MAY''
     = Inr [tk ''temporal'' sym_since ''SINCE'' 0, tk ''relative'' sym_last ''LAST'' 6,
            tk ''mon'' sym_may ''MAY'' 11]"
  by code_simp

section \<open>The condition tree\<close>

text \<open>The item leaf made of a token, and the predicate made of three tokens.\<close>

definition item_of :: "lexer_token \<Rightarrow> item" where
  "item_of t = \<lparr>lexer_sym = token t, lexer_tag = Some (tag t), lexer_val = Some (val t)\<rparr>"

definition mk_pred :: "lexer_token \<Rightarrow> lexer_token \<Rightarrow> lexer_token \<Rightarrow> and_item" where
  "mk_pred l ope r = \<lparr>this = item_of ope, left = item_of l, right = item_of r\<rparr>"

text \<open>
  The condition tree as the specification describes it, read off the tokens of the
  clause: the first predicate opens the first conjunction group; then each AND with its
  predicate adds the predicate to the current (last) group, and each OR with its
  predicate opens a new group after it.
\<close>

fun spec_rest :: "lexer_token list \<Rightarrow> and_item list list \<Rightarrow> and_item list list" where
  "spec_rest (c # l # ope # r # rest) gs =
     spec_rest rest
       (if token c = sym_and then butlast gs @ [last gs @ [mk_pred l ope r]]
        else gs @ [[mk_pred l ope r]])"
| "spec_rest ts gs = gs"

definition spec_condition :: "lexer_token list \<Rightarrow> and_item list list" where
  "spec_condition seg =
     (case seg of l # ope # r # rest \<Rightarrow> spec_rest rest [[mk_pred l ope r]] | _ \<Rightarrow> [])"

text \<open>
  The shape of a clause: a predicate \<^verbatim>\<open>value = value\<close>, then any number of AND or OR,
  each with a predicate.
\<close>

fun rest_shape :: "lexer_token list \<Rightarrow> bool" where
  "rest_shape [] = True"
| "rest_shape (c # l # ope # r # rest) =
     ((token c = sym_and \<or> token c = sym_or) \<and> token ope = sym_equal \<and> rest_shape rest)"
| "rest_shape ts = False"

definition clause_shape :: "lexer_token list \<Rightarrow> bool" where
  "clause_shape seg =
     (case seg of l # ope # r # rest \<Rightarrow> token ope = sym_equal \<and> rest_shape rest | _ \<Rightarrow> False)"

text \<open>
  The condition tree the parser holds: an OR item is the conjunction group of its own
  predicate and the predicates of its AND list.
\<close>

definition group_of :: "or_item option \<Rightarrow> and_item list" where
  "group_of e =
     (case e of
        None \<Rightarrow> []
      | Some oi \<Rightarrow>
          \<lparr>this = this oi, left = left oi, right = right oi\<rparr>
            # concat (map (\<lambda>a. case a of None \<Rightarrow> [] | Some x \<Rightarrow> [x]) (and_list oi)))"

definition groups :: "or_item option list \<Rightarrow> and_item list list" where
  "groups ol = map group_of ol"

text \<open>The tokens between the cursor of \<open>p\<close> and the cursor of \<open>p'\<close>.\<close>

definition consumed :: "Parser \<Rightarrow> Parser \<Rightarrow> lexer_token list" where
  "consumed p p' = take (token_index p' - token_index p) (drop (token_index p) (tokens p))"

lemma list_update_last: "xs \<noteq> [] \<Longrightarrow> xs[length xs - Suc 0 := y] = butlast xs @ [y]"
  by (induction xs rule: rev_induct) simp_all

lemma take3_drop:
  "i + 2 < length ts \<Longrightarrow> take 3 (drop i ts) = [ts ! i, ts ! (i + 1), ts ! (i + 2)]"
  by (simp add: take_Suc_conv_app_nth numeral_3_eq_3)

lemma do_val_expr_item: "do_val_expr p = item_of (cur p)"
  by (simp add: do_val_expr_def item_of_def)

lemma groups_last: "ol \<noteq> [] \<Longrightarrow> last (groups ol) = group_of (last ol)"
  by (simp add: groups_def last_map)

lemma groups_butlast: "butlast (groups ol) = groups (butlast ol)"
  by (simp add: groups_def map_butlast)

lemma do_and_cond_tree:
  assumes "do_and_cond p = Inr p'"
  shows "\<exists>l ope r. consumed p p' = [l, ope, r] \<and> token ope = sym_equal
           \<and> groups (or_list p') = butlast (groups (or_list p))
                 @ [last (groups (or_list p)) @ [mk_pred l ope r]]
           \<and> tokens p' = tokens p \<and> token_index p' = token_index p + 3
           \<and> token_index p' < num_tokens p'"
proof -
  from assms obtain oi where ne: "or_list p \<noteq> []" and oi: "last (or_list p) = Some oi"
    and len: "token_index p + 3 < length (tokens p)"
    and eq: "token (tokens p ! (token_index p + 1)) = sym_equal"
    by (auto simp: do_and_cond_def Let_def advance_def num_tokens_def cur_def
             split: if_splits option.splits)
  let ?i = "token_index p"
  let ?new = "mk_pred (tokens p ! ?i) (tokens p ! (?i + 1)) (tokens p ! (?i + 2))"
  let ?al = "if and_list oi \<noteq> [] then and_list oi @ [Some zero_and_item] else [None]"
  from assms ne oi len eq
  have p': "p' = (advance 3 p)\<lparr>or_list := (or_list p)
      [length (or_list p) - 1 := Some (oi\<lparr>and_list := ?al[length ?al - 1 := Some ?new]\<rparr>)]\<rparr>"
    by (auto simp: do_and_cond_def Let_def advance_def num_tokens_def cur_def
          do_val_expr_item mk_pred_def eval_nat_numeral)
  have al: "?al[length ?al - 1 := Some ?new] = and_list oi @ [Some ?new]" by simp
  have g: "group_of (Some (oi\<lparr>and_list := and_list oi @ [Some ?new]\<rparr>))
      = group_of (Some oi) @ [?new]"
    by (simp add: group_of_def)
  have "groups (or_list p') = butlast (groups (or_list p)) @ [group_of (Some oi) @ [?new]]"
    unfolding p' al using ne g
    by (simp add: list_update_last groups_def map_butlast)
  moreover from ne oi have "last (groups (or_list p)) = group_of (Some oi)"
    by (simp add: groups_last)
  moreover from len have "consumed p p' = [tokens p ! ?i, tokens p ! (?i + 1), tokens p ! (?i + 2)]"
    unfolding p' consumed_def by (simp add: advance_def take3_drop)
  ultimately show ?thesis using eq len p'
    by (auto simp: advance_def num_tokens_def)
qed


lemma take_drop_split:
  assumes "i \<le> j" "j \<le> k"
  shows "take (k - i) (drop i ts) = take (j - i) (drop i ts) @ take (k - j) (drop j ts)"
proof -
  from assms have a: "k - i = (j - i) + (k - j)" by simp
  from assms have b: "drop j ts = drop (j - i) (drop i ts)" by simp
  show ?thesis unfolding a b by (rule take_add)
qed

lemma consumed_trans:
  assumes "tokens p' = tokens p" "token_index p \<le> token_index p'"
    "token_index p' \<le> token_index p''"
  shows "consumed p p'' = consumed p p' @ consumed p' p''"
  unfolding consumed_def assms(1) using assms(2,3) by (rule take_drop_split)

lemma consumed_advance:
  assumes "token_index p < length (tokens p)" "token_index p < token_index p'"
  shows "consumed p p' = cur p # consumed (advance 1 p) p'"
proof -
  from assms(2) obtain k where k: "token_index p' - token_index p = Suc k"
    by (cases "token_index p' - token_index p") simp_all
  then have k': "token_index p' - Suc (token_index p) = k" by simp
  from assms(1) have "drop (token_index p) (tokens p)
      = tokens p ! token_index p # drop (Suc (token_index p)) (tokens p)"
    by (simp add: Cons_nth_drop_Suc)
  then show ?thesis by (simp add: consumed_def advance_def cur_def k k')
qed

lemma do_or_cond_loop_tree:
  "do_or_cond_loop p = Inr p' \<Longrightarrow>
     tokens p' = tokens p \<and> token_index p \<le> token_index p'
     \<and> rest_shape (consumed p p')
     \<and> groups (or_list p') = spec_rest (consumed p p') (groups (or_list p))
     \<and> token_index p' < num_tokens p' \<and> token (cur p') \<noteq> sym_and"
proof (induction p rule: do_or_cond_loop.induct)
  case (1 p)
  show ?case
  proof (cases "token_index p < num_tokens p \<and> token (cur p) = sym_and")
    case True
    with "1.prems" obtain q where q: "do_and_cond (advance 1 p) = Inr q"
      and r: "do_or_cond_loop q = Inr p'"
      by (subst (asm) do_or_cond_loop.simps) (auto split: sum.splits)
    from "1.IH" [OF _ _ q r] True
    have ih: "tokens p' = tokens q" "token_index q \<le> token_index p'"
      "rest_shape (consumed q p')"
      "groups (or_list p') = spec_rest (consumed q p') (groups (or_list q))"
      "token_index p' < num_tokens p'" "token (cur p') \<noteq> sym_and"
      by simp_all
    from do_and_cond_tree [OF q] obtain l ope r where
      c: "consumed (advance 1 p) q = [l, ope, r]" and e: "token ope = sym_equal"
      and g: "groups (or_list q) = butlast (groups (or_list p))
                 @ [last (groups (or_list p)) @ [mk_pred l ope r]]"
      and t: "tokens q = tokens p" and i: "token_index q = token_index p + 4"
      by (auto simp: advance_def)
    from True have lt: "token_index p < length (tokens p)" by (simp add: num_tokens_def)
    from i ih(2) have "token_index p < token_index p'" by simp
    from consumed_advance [OF lt this]
    have "consumed p p' = cur p # consumed (advance 1 p) p'" .
    also have "consumed (advance 1 p) p' = consumed (advance 1 p) q @ consumed q p'"
      using t i ih(2) by (intro consumed_trans) (simp_all add: advance_def)
    finally have cons: "consumed p p' = cur p # l # ope # r # consumed q p'"
      using c by simp
    from True e ih(3) ih(4) g show ?thesis
      unfolding cons using ih(1) t i ih(2) ih(5) ih(6) by simp
  next
    case False
    with "1.prems" have "p' = p" "token_index p < num_tokens p" "token (cur p) \<noteq> sym_and"
      by (subst (asm) do_or_cond_loop.simps; auto split: if_splits)+
    then show ?thesis by (simp add: consumed_def)
  qed
qed


lemma spec_rest_append:
  "rest_shape a \<Longrightarrow> spec_rest (a @ b) gs = spec_rest b (spec_rest a gs)"
  by (induction a arbitrary: gs rule: rest_shape.induct) simp_all

lemma rest_shape_append: "rest_shape a \<Longrightarrow> rest_shape (a @ b) = rest_shape b"
  by (induction a rule: rest_shape.induct) simp_all

lemma spec_rest_prefix: "hs \<noteq> [] \<Longrightarrow> spec_rest ts (gs @ hs) = gs @ spec_rest ts hs"
proof (induction ts hs rule: spec_rest.induct)
  case (1 c l ope r rest hs)
  then show ?case by (cases "token c = sym_and") (simp_all add: butlast_append)
qed simp_all

lemma do_or_cond_tree:
  assumes "do_or_cond p = Inr p'"
  shows "\<exists>l ope r rest. consumed p p' = l # ope # r # rest \<and> token ope = sym_equal
           \<and> rest_shape rest
           \<and> groups (or_list p') = spec_rest rest (groups (or_list p) @ [[mk_pred l ope r]])
           \<and> tokens p' = tokens p \<and> token_index p + 3 \<le> token_index p'
           \<and> token_index p' < num_tokens p' \<and> token (cur p') \<noteq> sym_and"
proof -
  let ?i = "token_index p"
  let ?new = "\<lparr>this = item_of (tokens p ! (?i + 1)), left = item_of (tokens p ! ?i),
      right = item_of (tokens p ! (?i + 2)), and_list = []\<rparr>"
  let ?ol = "if or_list p \<noteq> [] then or_list p @ [Some zero_or_item] else [None]"
  let ?q = "(advance 3 p)\<lparr>or_list := ?ol[length ?ol - 1 := Some ?new]\<rparr>"
  from assms have len: "?i + 3 < length (tokens p)"
    and eq: "token (tokens p ! (?i + 1)) = sym_equal"
    by (auto simp: do_or_cond_def Let_def advance_def num_tokens_def cur_def split: if_splits)
  with assms have loop: "do_or_cond_loop ?q = Inr p'"
    by (auto simp: do_or_cond_def Let_def advance_def num_tokens_def cur_def
          do_val_expr_item eval_nat_numeral split: if_splits)
  have ol: "?ol[length ?ol - 1 := Some ?new] = or_list p @ [Some ?new]" by simp
  have gq: "groups (or_list ?q) = groups (or_list p)
      @ [[mk_pred (tokens p ! ?i) (tokens p ! (?i + 1)) (tokens p ! (?i + 2))]]"
    by (cases "or_list p = []") (simp_all add: groups_def group_of_def mk_pred_def)
  from do_or_cond_loop_tree [OF loop]
  have t: "tokens p' = tokens p" and i: "?i + 3 \<le> token_index p'"
    and sh: "rest_shape (consumed ?q p')"
    and g: "groups (or_list p') = spec_rest (consumed ?q p') (groups (or_list ?q))"
    and lt: "token_index p' < num_tokens p'" "token (cur p') \<noteq> sym_and"
    by (simp_all add: advance_def)
  have "consumed p p' = consumed p ?q @ consumed ?q p'"
    using i by (intro consumed_trans) (simp_all add: advance_def)
  moreover from len have "consumed p ?q = [tokens p ! ?i, tokens p ! (?i + 1), tokens p ! (?i + 2)]"
    by (simp add: consumed_def advance_def take3_drop)
  ultimately have "consumed p p'
      = tokens p ! ?i # tokens p ! (?i + 1) # tokens p ! (?i + 2) # consumed ?q p'"
    by simp
  with eq sh g gq t i lt show ?thesis by auto
qed

lemma do_matching_cond_loop_tree:
  "do_matching_cond_loop p = Inr p' \<Longrightarrow> token (cur p) \<noteq> sym_and \<Longrightarrow>
     tokens p' = tokens p \<and> token_index p \<le> token_index p'
     \<and> rest_shape (consumed p p')
     \<and> groups (or_list p') = spec_rest (consumed p p') (groups (or_list p))
     \<and> token_index p' < num_tokens p'
     \<and> token (cur p') \<noteq> sym_and \<and> token (cur p') \<noteq> sym_or"
proof (induction p rule: do_matching_cond_loop.induct)
  case (1 p)
  show ?case
  proof (cases "token_index p < num_tokens p \<and> token (cur p) = sym_or")
    case True
    with "1.prems"(1) obtain q where q: "do_or_cond (advance 1 p) = Inr q"
      and r: "do_matching_cond_loop q = Inr p'"
      by (subst (asm) do_matching_cond_loop.simps) (auto split: sum.splits)
    from do_or_cond_tree [OF q] obtain l ope r rest where
      c: "consumed (advance 1 p) q = l # ope # r # rest" and e: "token ope = sym_equal"
      and sh: "rest_shape rest"
      and g: "groups (or_list q) = spec_rest rest (groups (or_list p) @ [[mk_pred l ope r]])"
      and t: "tokens q = tokens p" and i: "token_index p + 4 \<le> token_index q"
      and na: "token (cur q) \<noteq> sym_and"
      by (auto simp: advance_def)
    from "1.IH" [OF _ _ q r na] True
    have ih: "tokens p' = tokens q" "token_index q \<le> token_index p'"
      "rest_shape (consumed q p')"
      "groups (or_list p') = spec_rest (consumed q p') (groups (or_list q))"
      "token_index p' < num_tokens p'"
      "token (cur p') \<noteq> sym_and" "token (cur p') \<noteq> sym_or"
      by simp_all
    from True have lt: "token_index p < length (tokens p)" by (simp add: num_tokens_def)
    from i ih(2) have "token_index p < token_index p'" by simp
    from consumed_advance [OF lt this]
    have "consumed p p' = cur p # consumed (advance 1 p) p'" .
    also have "consumed (advance 1 p) p' = consumed (advance 1 p) q @ consumed q p'"
      using t i ih(2) by (intro consumed_trans) (simp_all add: advance_def)
    finally have cons: "consumed p p' = cur p # l # ope # r # (rest @ consumed q p')"
      using c by simp
    from True have nand: "token (cur p) \<noteq> sym_and" by (simp add: sym_defs)
    from True e sh ih(3) ih(4) g nand show ?thesis
      unfolding cons using ih(1) t i ih(2) ih(5) ih(6) ih(7)
      by (simp add: spec_rest_append rest_shape_append)
  next
    case False
    with "1.prems"(1) have "p' = p" "token_index p < num_tokens p" "token (cur p) \<noteq> sym_or"
      by (subst (asm) do_matching_cond_loop.simps; auto split: if_splits)+
    with "1.prems"(2) show ?thesis by (simp add: consumed_def)
  qed
qed

lemma do_matching_cond_tree:
  assumes "do_matching_cond p = Inr p'"
  shows "clause_shape (consumed p p')
     \<and> groups (or_list p') = groups (or_list p) @ spec_condition (consumed p p')
     \<and> tokens p' = tokens p
     \<and> token_index p' = token_index p + length (consumed p p')
     \<and> token_index p' < num_tokens p'
     \<and> token (cur p') \<noteq> sym_and \<and> token (cur p') \<noteq> sym_or"
proof -
  from assms obtain q where q: "do_or_cond p = Inr q" and r: "do_matching_cond_loop q = Inr p'"
    by (auto simp: do_matching_cond_def split: if_splits sum.splits)
  from do_or_cond_tree [OF q] obtain l ope r rest where
    c: "consumed p q = l # ope # r # rest" and e: "token ope = sym_equal"
    and sh: "rest_shape rest"
    and g: "groups (or_list q) = spec_rest rest (groups (or_list p) @ [[mk_pred l ope r]])"
    and t: "tokens q = tokens p" and i: "token_index p + 3 \<le> token_index q"
    and na: "token (cur q) \<noteq> sym_and"
    by auto
  from do_matching_cond_loop_tree [OF r na]
  have t': "tokens p' = tokens q" and i': "token_index q \<le> token_index p'"
    and sh': "rest_shape (consumed q p')"
    and g': "groups (or_list p') = spec_rest (consumed q p') (groups (or_list q))"
    and ex: "token_index p' < num_tokens p'"
      "token (cur p') \<noteq> sym_and" "token (cur p') \<noteq> sym_or"
    by simp_all
  from t t' i i' ex(1) have len: "token_index p' = token_index p + length (consumed p p')"
    by (simp add: consumed_def num_tokens_def)
  have "consumed p p' = consumed p q @ consumed q p'"
    using t i i' by (intro consumed_trans) simp_all
  with c have cons: "consumed p p' = l # ope # r # (rest @ consumed q p')" by simp
  have "groups (or_list p')
      = spec_rest (rest @ consumed q p') (groups (or_list p) @ [[mk_pred l ope r]])"
    using g g' sh by (simp add: spec_rest_append)
  also have "\<dots> = groups (or_list p) @ spec_rest (rest @ consumed q p') [[mk_pred l ope r]]"
    by (rule spec_rest_prefix) simp
  finally show ?thesis
    using e sh sh' t t' ex len
    by (simp add: cons clause_shape_def spec_condition_def rest_shape_append)
qed

lemma do_or_cond_not_equal:
  assumes "token_index p + 3 < num_tokens p" "tok_at p (token_index p + 1) \<noteq> sym_equal"
  shows "do_or_cond p = Inl (fail_at p (token_index p + 1) ExpectedEqual)"
  using assms
  by (simp add: do_or_cond_def Let_def advance_def num_tokens_def cur_def tok_at_def
        fail_at_def)

lemma do_and_cond_not_equal:
  assumes "token_index p + 3 < num_tokens p" "tok_at p (token_index p + 1) \<noteq> sym_equal"
    and "or_list p \<noteq> []" "last (or_list p) \<noteq> None"
  shows "do_and_cond p = Inl (fail_at p (token_index p + 1) ExpectedEqual)"
  using assms
  by (auto simp: do_and_cond_def Let_def advance_def num_tokens_def cur_def tok_at_def
        fail_at_def split: option.splits)


text \<open>
  A clause with three predicates in two groups, and a clause whose comparison is not
  an equal sign; the cursor is on the first token after MATCHING.
\<close>

definition q_matching :: string where
  "q_matching = ''FIND dest_ip MATCHING src_ip='192.168.0.1' AND dest_port=80 OR proto='tcp' SINCE YESTERDAY''"

definition t_src_ip :: lexer_token where "t_src_ip = tk ''ident'' sym_none ''src_ip'' 22"
definition t_eq1 :: lexer_token where "t_eq1 = tk ''equal'' sym_equal ''='' 28"
definition t_addr :: lexer_token where "t_addr = tk ''string'' sym_none ''192.168.0.1'' 29"
definition t_dest_port :: lexer_token where "t_dest_port = tk ''ident'' sym_none ''dest_port'' 47"
definition t_eq2 :: lexer_token where "t_eq2 = tk ''equal'' sym_equal ''='' 56"
definition t_80 :: lexer_token where "t_80 = tk ''int'' sym_none ''80'' 57"
definition t_proto :: lexer_token where "t_proto = tk ''ident'' sym_none ''proto'' 63"
definition t_eq3 :: lexer_token where "t_eq3 = tk ''equal'' sym_equal ''='' 68"
definition t_tcp :: lexer_token where "t_tcp = tk ''string'' sym_none ''tcp'' 69"

definition tokens_matching :: "lexer_token list" where
  "tokens_matching =
     [tk ''command'' sym_find ''FIND'' 0, tk ''ident'' sym_none ''dest_ip'' 5,
      tk ''condition'' sym_matching ''MATCHING'' 13,
      t_src_ip, t_eq1, t_addr, tk ''and'' sym_and ''AND'' 43,
      t_dest_port, t_eq2, t_80, tk ''or'' sym_or ''OR'' 60,
      t_proto, t_eq3, t_tcp,
      tk ''temporal'' sym_since ''SINCE'' 75, tk ''relative'' sym_yesterday ''YESTERDAY'' 81]"

definition p_matching :: Parser where
  "p_matching = (new_Parser q_matching tokens_matching)\<lparr>token_index := 3\<rparr>"

definition p_less :: Parser where
  "p_less = (new_Parser ''FIND a MATCHING b < c SINCE YESTERDAY''
     [tk ''command'' sym_find ''FIND'' 0, tk ''ident'' sym_none ''a'' 5,
      tk ''condition'' sym_matching ''MATCHING'' 7, tk ''ident'' sym_none ''b'' 16,
      tk ''less'' sym_less ''<'' 18, tk ''ident'' sym_none ''c'' 20,
      tk ''temporal'' sym_since ''SINCE'' 22, tk ''relative'' sym_yesterday ''YESTERDAY'' 28])
     \<lparr>token_index := 3\<rparr>"

subsection \<open>Reading a clause to its end\<close>

text \<open>
  What \<^verbatim>\<open>do_matching_cond\<close> still does once \<^verbatim>\<open>do_or_cond\<close> has read the first predicate of
  a group: the rest of the AND loop of \<^verbatim>\<open>do_or_cond\<close>, then the OR loop.
\<close>

definition after_group :: "Parser \<Rightarrow> error + Parser" where
  "after_group q =
     (case do_or_cond_loop q of Inl e \<Rightarrow> Inl e | Inr q' \<Rightarrow> do_matching_cond_loop q')"

lemma fail_at_same:
  "tokens q = tokens p \<Longrightarrow> query q = query p \<Longrightarrow> fail_at q k e = fail_at p k e"
  by (simp add: fail_at_def Let_def)

lemma do_or_cond_step:
  assumes "token_index p + 3 < num_tokens p" "tok_at p (token_index p + 1) = sym_equal"
  shows "\<exists>q. do_or_cond p = do_or_cond_loop q \<and> tokens q = tokens p \<and> query q = query p
           \<and> token_index q = token_index p + 3
           \<and> or_list q \<noteq> [] \<and> last (or_list q) \<noteq> None"
proof -
  let ?i = "token_index p"
  let ?new = "\<lparr>this = item_of (tokens p ! (?i + 1)), left = item_of (tokens p ! ?i),
      right = item_of (tokens p ! (?i + 2)), and_list = []\<rparr>"
  let ?ol = "if or_list p \<noteq> [] then or_list p @ [Some zero_or_item] else [None]"
  let ?q = "(advance 3 p)\<lparr>or_list := ?ol[length ?ol - 1 := Some ?new]\<rparr>"
  from assms have "do_or_cond p = do_or_cond_loop ?q"
    by (auto simp: do_or_cond_def Let_def advance_def num_tokens_def cur_def tok_at_def
          do_val_expr_item eval_nat_numeral)
  moreover have "?ol[length ?ol - 1 := Some ?new] = or_list p @ [Some ?new]" by simp
  then have "or_list ?q \<noteq> [] \<and> last (or_list ?q) \<noteq> None" by simp
  ultimately show ?thesis by (intro exI [of _ ?q]) (simp add: advance_def)
qed

lemma do_and_cond_step:
  assumes "token_index p + 3 < num_tokens p" "tok_at p (token_index p + 1) = sym_equal"
    and "or_list p \<noteq> []" "last (or_list p) \<noteq> None"
  shows "\<exists>q. do_and_cond p = Inr q \<and> tokens q = tokens p \<and> query q = query p
           \<and> token_index q = token_index p + 3
           \<and> or_list q \<noteq> [] \<and> last (or_list q) \<noteq> None"
  using assms
  by (auto simp: do_and_cond_def Let_def advance_def num_tokens_def cur_def tok_at_def
        last_list_update split: option.splits)

lemma after_group_and:
  assumes "token_index q < num_tokens q" "token (cur q) = sym_and"
  shows "after_group q
      = (case do_and_cond (advance 1 q) of Inl e \<Rightarrow> Inl e | Inr q' \<Rightarrow> after_group q')"
  using assms unfolding after_group_def
  by (subst do_or_cond_loop.simps) (simp split: sum.splits)

lemma after_group_or:
  assumes "token_index q < num_tokens q" "token (cur q) = sym_or"
  shows "after_group q
      = (case do_or_cond (advance 1 q) of Inl e \<Rightarrow> Inl e | Inr q' \<Rightarrow> do_matching_cond_loop q')"
proof -
  from assms have "do_or_cond_loop q = Inr q"
    by (subst do_or_cond_loop.simps) (simp add: sym_defs)
  moreover from assms have "do_matching_cond_loop q
      = (case do_or_cond (advance 1 q) of Inl e \<Rightarrow> Inl e | Inr q' \<Rightarrow> do_matching_cond_loop q')"
    by (subst do_matching_cond_loop.simps) simp
  ultimately show ?thesis by (simp add: after_group_def)
qed

lemma drop_eq_Cons:
  assumes "drop i ts = x # xs"
  shows "i < length ts" "ts ! i = x" "drop (Suc i) ts = xs"
proof -
  from assms show "i < length ts" by (cases "i < length ts") simp_all
  then have "drop i ts = ts ! i # drop (Suc i) ts" by (simp add: Cons_nth_drop_Suc)
  with assms show "ts ! i = x" "drop (Suc i) ts = xs" by simp_all
qed

lemma drop_eq_pred:
  assumes "drop i ts = c # l # ope # r # t # rest"
  shows "i + 4 < length ts" "ts ! i = c" "ts ! (i + 2) = ope" "drop (i + 4) ts = t # rest"
proof -
  note a = drop_eq_Cons [OF assms]
  note b = drop_eq_Cons [OF a(3)]
  note c = drop_eq_Cons [OF b(3)]
  note d = drop_eq_Cons [OF c(3)]
  note e = drop_eq_Cons [OF d(3)]
  from e(1) show "i + 4 < length ts" by simp
  from a(2) show "ts ! i = c" .
  from c(2) show "ts ! (i + 2) = ope" by simp
  from d(3) show "drop (i + 4) ts = t # rest" by (simp add: eval_nat_numeral)
qed


lemma after_group_not_equal:
  "rest_shape a \<Longrightarrow> drop (token_index q) (tokens q) = a @ c # l # ope # r # t # rest \<Longrightarrow>
   token c = sym_and \<or> token c = sym_or \<Longrightarrow> token ope \<noteq> sym_equal \<Longrightarrow>
   or_list q \<noteq> [] \<Longrightarrow> last (or_list q) \<noteq> None \<Longrightarrow>
   after_group q = Inl (fail_at q (token_index q + length a + 2) ExpectedEqual)"
proof (induction a arbitrary: q rule: rest_shape.induct)
  case 1
  let ?i = "token_index q"
  from "1.prems"(2) have d: "drop ?i (tokens q) = c # l # ope # r # t # rest" by simp
  note e = drop_eq_pred [OF d]
  from e have lt: "?i < num_tokens q" and cu: "cur q = c"
    by (simp_all add: num_tokens_def cur_def)
  let ?q = "advance 1 q"
  from e "1.prems"(4) have b: "token_index ?q + 3 < num_tokens ?q"
    "tok_at ?q (token_index ?q + 1) \<noteq> sym_equal"
    by (simp_all add: advance_def num_tokens_def tok_at_def)
  have f: "fail_at ?q (token_index ?q + 1) ExpectedEqual = fail_at q (?i + 2) ExpectedEqual"
    by (simp add: fail_at_def advance_def Let_def)
  from "1.prems"(3) show ?case
  proof
    assume "token c = sym_and"
    with lt cu have "after_group q
        = (case do_and_cond ?q of Inl e \<Rightarrow> Inl e | Inr q' \<Rightarrow> after_group q')"
      by (intro after_group_and) simp_all
    moreover from "1.prems"(5,6) have "do_and_cond ?q
        = Inl (fail_at ?q (token_index ?q + 1) ExpectedEqual)"
      by (intro do_and_cond_not_equal b) (simp_all add: advance_def)
    ultimately show ?thesis using f by simp
  next
    assume "token c = sym_or"
    with lt cu have "after_group q
        = (case do_or_cond ?q of Inl e \<Rightarrow> Inl e | Inr q' \<Rightarrow> do_matching_cond_loop q')"
      by (intro after_group_or) simp_all
    moreover have "do_or_cond ?q = Inl (fail_at ?q (token_index ?q + 1) ExpectedEqual)"
      by (intro do_or_cond_not_equal b)
    ultimately show ?thesis using f by simp
  qed
next
  case (2 c' l' ope' r' a')
  let ?i = "token_index q"
  from "2.prems"(1) have sh: "token c' = sym_and \<or> token c' = sym_or"
    "token ope' = sym_equal" "rest_shape a'" by simp_all
  from "2.prems"(2) have d: "drop ?i (tokens q)
      = c' # l' # ope' # r' # (a' @ c # l # ope # r # t # rest)" by simp
  have "\<exists>t' rest'. a' @ c # l # ope # r # t # rest = t' # rest'"
    by (cases a') simp_all
  then obtain t' rest' where tr: "a' @ c # l # ope # r # t # rest = t' # rest'" by blast
  note e = drop_eq_pred [OF d [unfolded tr]]
  from e have lt: "?i < num_tokens q" and cu: "cur q = c'"
    by (simp_all add: num_tokens_def cur_def)
  let ?q = "advance 1 q"
  from e sh(2) have b: "token_index ?q + 3 < num_tokens ?q"
    "tok_at ?q (token_index ?q + 1) = sym_equal"
    by (simp_all add: advance_def num_tokens_def tok_at_def)
  have step: "after_group q1 = Inl (fail_at q (?i + length (c' # l' # ope' # r' # a') + 2) ExpectedEqual)"
    if q1: "tokens q1 = tokens ?q" "query q1 = query ?q" "token_index q1 = token_index ?q + 3"
      "or_list q1 \<noteq> []" "last (or_list q1) \<noteq> None" for q1
  proof -
    from q1(1,3) e(4) tr have "drop (token_index q1) (tokens q1)
        = a' @ c # l # ope # r # t # rest"
      by (simp add: advance_def add.commute)
    from "2.IH" [OF sh(3) this "2.prems"(3,4) q1(4,5)]
    have "after_group q1 = Inl (fail_at q1 (token_index q1 + length a' + 2) ExpectedEqual)" .
    also have "fail_at q1 (token_index q1 + length a' + 2) ExpectedEqual
        = fail_at q (token_index q1 + length a' + 2) ExpectedEqual"
      using q1(1,2) by (intro fail_at_same) (simp_all add: advance_def)
    finally have "after_group q1
        = Inl (fail_at q (token_index q1 + length a' + 2) ExpectedEqual)" .
    moreover have "token_index q1 + length a' + 2
        = token_index q + length (c' # l' # ope' # r' # a') + 2"
      using q1(3) by (simp add: advance_def)
    ultimately show ?thesis by (simp only:)
  qed
  from sh(1) show ?case
  proof
    assume "token c' = sym_and"
    with lt cu have "after_group q
        = (case do_and_cond ?q of Inl e \<Rightarrow> Inl e | Inr q' \<Rightarrow> after_group q')"
      by (intro after_group_and) simp_all
    moreover from do_and_cond_step [OF b] "2.prems"(5,6)
    obtain q1 where "do_and_cond ?q = Inr q1" "tokens q1 = tokens ?q" "query q1 = query ?q"
      "token_index q1 = token_index ?q + 3" "or_list q1 \<noteq> []" "last (or_list q1) \<noteq> None"
      by (auto simp: advance_def)
    ultimately show ?thesis using step [of q1] by simp
  next
    assume "token c' = sym_or"
    with lt cu have "after_group q
        = (case do_or_cond ?q of Inl e \<Rightarrow> Inl e | Inr q' \<Rightarrow> do_matching_cond_loop q')"
      by (intro after_group_or) simp_all
    moreover from do_or_cond_step [OF b]
    obtain q1 where "do_or_cond ?q = do_or_cond_loop q1" "tokens q1 = tokens ?q"
      "query q1 = query ?q" "token_index q1 = token_index ?q + 3"
      "or_list q1 \<noteq> []" "last (or_list q1) \<noteq> None"
      by blast
    ultimately show ?thesis using step [of q1] by (simp add: after_group_def)
  qed
qed simp_all

lemma do_matching_cond_not_equal_later:
  assumes sh: "clause_shape seg"
    and d: "drop (token_index p) (tokens p) = seg @ c # l # ope # r # t # rest"
    and c: "token c = sym_and \<or> token c = sym_or" and ne: "token ope \<noteq> sym_equal"
  shows "do_matching_cond p
      = Inl (fail_at p (token_index p + length seg + 2) ExpectedEqual)"
proof -
  from sh obtain l0 ope0 r0 a where seg: "seg = l0 # ope0 # r0 # a"
    and eq: "token ope0 = sym_equal" and a: "rest_shape a"
    by (auto simp: clause_shape_def split: list.splits)
  let ?i = "token_index p"
  have "\<exists>t' rest'. a @ c # l # ope # r # t # rest = t' # rest'" by (cases a) simp_all
  then obtain t' rest' where tr: "a @ c # l # ope # r # t # rest = t' # rest'" by blast
  from d seg tr have d0: "drop ?i (tokens p) = l0 # ope0 # r0 # t' # rest'" by simp
  note a0 = drop_eq_Cons [OF d0]
  note a1 = drop_eq_Cons [OF a0(3)]
  note a2 = drop_eq_Cons [OF a1(3)]
  note a3 = drop_eq_Cons [OF a2(3)]
  from a3(1) a1(2) eq have b: "?i + 3 < num_tokens p" "tok_at p (?i + 1) = sym_equal"
    by (simp_all add: num_tokens_def tok_at_def)
  from do_or_cond_step [OF b]
  obtain q1 where q1: "do_or_cond p = do_or_cond_loop q1" "tokens q1 = tokens p"
    "query q1 = query p" "token_index q1 = ?i + 3"
    "or_list q1 \<noteq> []" "last (or_list q1) \<noteq> None"
    by blast
  from b(1) q1(1) have "do_matching_cond p = after_group q1"
    by (simp add: do_matching_cond_def after_group_def)
  also from a2(3) q1(2,4) tr have "drop (token_index q1) (tokens q1)
      = a @ c # l # ope # r # t # rest"
    by (simp add: eval_nat_numeral)
  from after_group_not_equal [OF a this c ne q1(5,6)]
  have "after_group q1 = Inl (fail_at q1 (token_index q1 + length a + 2) ExpectedEqual)" .
  also have "fail_at q1 (token_index q1 + length a + 2) ExpectedEqual
      = fail_at p (token_index q1 + length a + 2) ExpectedEqual"
    using q1(2,3) by (rule fail_at_same)
  finally have "do_matching_cond p
      = Inl (fail_at p (token_index q1 + length a + 2) ExpectedEqual)" .
  moreover have "token_index q1 + length a + 2 = token_index p + length seg + 2"
    using q1(4) seg by simp
  ultimately show ?thesis by (simp only:)
qed


lemma after_group_done:
  "rest_shape a \<Longrightarrow> drop (token_index q) (tokens q) = a @ u # rest \<Longrightarrow>
   token u \<noteq> sym_and \<Longrightarrow> token u \<noteq> sym_or \<Longrightarrow>
   or_list q \<noteq> [] \<Longrightarrow> last (or_list q) \<noteq> None \<Longrightarrow>
   \<exists>q'. after_group q = Inr q' \<and> tokens q' = tokens q
        \<and> token_index q' = token_index q + length a"
proof (induction a arbitrary: q rule: rest_shape.induct)
  case 1
  from "1.prems"(2) have d: "drop (token_index q) (tokens q) = u # rest" by simp
  note e = drop_eq_Cons [OF d]
  from e have lt: "token_index q < num_tokens q" and cu: "cur q = u"
    by (simp_all add: num_tokens_def cur_def)
  from lt cu "1.prems"(3) have "do_or_cond_loop q = Inr q"
    by (subst do_or_cond_loop.simps) simp
  moreover from lt cu "1.prems"(4) have "do_matching_cond_loop q = Inr q"
    by (subst do_matching_cond_loop.simps) simp
  ultimately show ?case by (simp add: after_group_def)
next
  case (2 c' l' ope' r' a')
  let ?i = "token_index q"
  from "2.prems"(1) have sh: "token c' = sym_and \<or> token c' = sym_or"
    "token ope' = sym_equal" "rest_shape a'" by simp_all
  from "2.prems"(2) have d: "drop ?i (tokens q) = c' # l' # ope' # r' # (a' @ u # rest)"
    by simp
  have "\<exists>t' rest'. a' @ u # rest = t' # rest'" by (cases a') simp_all
  then obtain t' rest' where tr: "a' @ u # rest = t' # rest'" by blast
  note e = drop_eq_pred [OF d [unfolded tr]]
  from e have lt: "?i < num_tokens q" and cu: "cur q = c'"
    by (simp_all add: num_tokens_def cur_def)
  let ?q = "advance 1 q"
  from e sh(2) have b: "token_index ?q + 3 < num_tokens ?q"
    "tok_at ?q (token_index ?q + 1) = sym_equal"
    by (simp_all add: advance_def num_tokens_def tok_at_def)
  have step: "\<exists>q'. after_group q1 = Inr q' \<and> tokens q' = tokens q
        \<and> token_index q' = ?i + length (c' # l' # ope' # r' # a')"
    if q1: "tokens q1 = tokens ?q" "token_index q1 = token_index ?q + 3"
      "or_list q1 \<noteq> []" "last (or_list q1) \<noteq> None" for q1
  proof -
    from q1(1,2) e(4) tr have "drop (token_index q1) (tokens q1) = a' @ u # rest"
      by (simp add: advance_def add.commute)
    from "2.IH" [OF sh(3) this "2.prems"(3,4) q1(3,4)]
    obtain q' where "after_group q1 = Inr q'" "tokens q' = tokens q1"
      "token_index q' = token_index q1 + length a'" by blast
    with q1(1,2) show ?thesis by (simp add: advance_def)
  qed
  from sh(1) show ?case
  proof
    assume "token c' = sym_and"
    with lt cu have "after_group q
        = (case do_and_cond ?q of Inl e \<Rightarrow> Inl e | Inr q' \<Rightarrow> after_group q')"
      by (intro after_group_and) simp_all
    moreover from do_and_cond_step [OF b] "2.prems"(5,6)
    obtain q1 where "do_and_cond ?q = Inr q1" "tokens q1 = tokens ?q"
      "token_index q1 = token_index ?q + 3" "or_list q1 \<noteq> []" "last (or_list q1) \<noteq> None"
      by (auto simp: advance_def)
    ultimately show ?thesis using step [of q1] by simp
  next
    assume "token c' = sym_or"
    with lt cu have "after_group q
        = (case do_or_cond ?q of Inl e \<Rightarrow> Inl e | Inr q' \<Rightarrow> do_matching_cond_loop q')"
      by (intro after_group_or) simp_all
    moreover from do_or_cond_step [OF b]
    obtain q1 where "do_or_cond ?q = do_or_cond_loop q1" "tokens q1 = tokens ?q"
      "token_index q1 = token_index ?q + 3"
      "or_list q1 \<noteq> []" "last (or_list q1) \<noteq> None"
      by blast
    ultimately show ?thesis using step [of q1] by (simp add: after_group_def)
  qed
qed simp_all

lemma do_matching_cond_reads_clause:
  assumes sh: "clause_shape seg"
    and d: "drop (token_index p) (tokens p) = seg @ u # rest"
    and u: "token u \<noteq> sym_and" "token u \<noteq> sym_or"
  shows "\<exists>p'. do_matching_cond p = Inr p' \<and> consumed p p' = seg
           \<and> groups (or_list p') = groups (or_list p) @ spec_condition seg"
proof -
  from sh obtain l0 ope0 r0 a where seg: "seg = l0 # ope0 # r0 # a"
    and eq: "token ope0 = sym_equal" and a: "rest_shape a"
    by (auto simp: clause_shape_def split: list.splits)
  let ?i = "token_index p"
  have "\<exists>t' rest'. a @ u # rest = t' # rest'" by (cases a) simp_all
  then obtain t' rest' where tr: "a @ u # rest = t' # rest'" by blast
  from d seg tr have d0: "drop ?i (tokens p) = l0 # ope0 # r0 # t' # rest'" by simp
  note a0 = drop_eq_Cons [OF d0]
  note a1 = drop_eq_Cons [OF a0(3)]
  note a2 = drop_eq_Cons [OF a1(3)]
  note a3 = drop_eq_Cons [OF a2(3)]
  from a3(1) a1(2) eq have b: "?i + 3 < num_tokens p" "tok_at p (?i + 1) = sym_equal"
    by (simp_all add: num_tokens_def tok_at_def)
  from do_or_cond_step [OF b]
  obtain q1 where q1: "do_or_cond p = do_or_cond_loop q1" "tokens q1 = tokens p"
    "token_index q1 = ?i + 3" "or_list q1 \<noteq> []" "last (or_list q1) \<noteq> None"
    by blast
  from b(1) q1(1) have m: "do_matching_cond p = after_group q1"
    by (simp add: do_matching_cond_def after_group_def)
  from a2(3) q1(2,3) tr have "drop (token_index q1) (tokens q1) = a @ u # rest"
    by (simp add: eval_nat_numeral)
  from after_group_done [OF a this u q1(4,5)]
  obtain p' where p': "after_group q1 = Inr p'" "tokens p' = tokens q1"
    "token_index p' = token_index q1 + length a" by blast
  from m p'(1) have run: "do_matching_cond p = Inr p'" by simp
  from p'(3) q1(3) seg have "token_index p' - ?i = length seg" by simp
  with d have c: "consumed p p' = seg" by (simp add: consumed_def)
  from do_matching_cond_tree [OF run] c
  have "groups (or_list p') = groups (or_list p) @ spec_condition seg" by simp
  with run c show ?thesis by blast
qed


text \<open>
  A clause whose second predicate, after AND, has a comparison that is not an equal
  sign; and the same statement with the cursor on that predicate, the first one read.
\<close>

definition p_and_less :: Parser where
  "p_and_less = (new_Parser ''FIND a MATCHING b = c AND d < e SINCE YESTERDAY''
     [tk ''command'' sym_find ''FIND'' 0, tk ''ident'' sym_none ''a'' 5,
      tk ''condition'' sym_matching ''MATCHING'' 7, tk ''ident'' sym_none ''b'' 16,
      tk ''equal'' sym_equal ''='' 18, tk ''ident'' sym_none ''c'' 20,
      tk ''and'' sym_and ''AND'' 22, tk ''ident'' sym_none ''d'' 26,
      tk ''less'' sym_less ''<'' 28, tk ''ident'' sym_none ''e'' 30,
      tk ''temporal'' sym_since ''SINCE'' 32, tk ''relative'' sym_yesterday ''YESTERDAY'' 38])
     \<lparr>token_index := 3\<rparr>"

definition p_and :: Parser where
  "p_and = p_and_less\<lparr>token_index := 7, or_list := [Some zero_or_item]\<rparr>"

text \<open>
  Claim C8, as the code has it.

  When the MATCHING clause parses, the parser has read the whole clause and nothing
  else: the tokens between the cursor at entry and the cursor at return have the shape
  of a clause (a predicate, then AND or OR each with a predicate), the cursor at return
  is inside the token list on a token that is neither AND nor OR, so that no AND and no
  OR of the clause is left unread, and the tree grew by exactly the groups the
  specification describes for the tokens read: the first predicate opens a group, each
  AND adds its predicate to the last group, each OR opens a new group.

  Conversely, when the tokens from the cursor are a clause followed by a token that is
  neither AND nor OR, the clause parses, the tokens read are exactly the clause, and
  the tree grew by the groups of the clause.

  When the comparison token of a predicate is not an equal sign and at least two
  tokens follow it, the parse fails with the error "expected equal sign" at that
  token: for the first predicate of the clause (and in \<^verbatim>\<open>do_or_cond\<close> and
  \<^verbatim>\<open>do_and_cond\<close>, called after OR and after AND), and for a predicate after AND or OR
  that follows any well-formed beginning of the clause.
\<close>

theorem matching_condition_tree:
  "(do_matching_cond p = Inr p' \<longrightarrow>
      clause_shape (consumed p p')
      \<and> groups (or_list p') = groups (or_list p) @ spec_condition (consumed p p')
      \<and> tokens p' = tokens p
      \<and> token_index p' = token_index p + length (consumed p p')
      \<and> token_index p' < num_tokens p'
      \<and> token (cur p') \<noteq> sym_and \<and> token (cur p') \<noteq> sym_or)
   \<and> (clause_shape seg \<and> drop (token_index p) (tokens p) = seg @ u # rest
        \<and> token u \<noteq> sym_and \<and> token u \<noteq> sym_or \<longrightarrow>
      (\<exists>p'. do_matching_cond p = Inr p' \<and> consumed p p' = seg
           \<and> groups (or_list p') = groups (or_list p) @ spec_condition seg))
   \<and> (token_index p + 3 < num_tokens p \<and> tok_at p (token_index p + 1) \<noteq> sym_equal \<longrightarrow>
      do_matching_cond p = Inl (fail_at p (token_index p + 1) ExpectedEqual)
      \<and> do_or_cond p = Inl (fail_at p (token_index p + 1) ExpectedEqual)
      \<and> (or_list p \<noteq> [] \<and> last (or_list p) \<noteq> None \<longrightarrow>
           do_and_cond p = Inl (fail_at p (token_index p + 1) ExpectedEqual)))
   \<and> (clause_shape pre \<and> drop (token_index p) (tokens p) = pre @ c # l # ope # r # t # post
        \<and> (token c = sym_and \<or> token c = sym_or) \<and> token ope \<noteq> sym_equal \<longrightarrow>
      do_matching_cond p = Inl (fail_at p (token_index p + length pre + 2) ExpectedEqual))"
proof (intro conjI)
  show "do_matching_cond p = Inr p' \<longrightarrow>
      clause_shape (consumed p p')
      \<and> groups (or_list p') = groups (or_list p) @ spec_condition (consumed p p')
      \<and> tokens p' = tokens p
      \<and> token_index p' = token_index p + length (consumed p p')
      \<and> token_index p' < num_tokens p'
      \<and> token (cur p') \<noteq> sym_and \<and> token (cur p') \<noteq> sym_or"
    by (rule impI) (rule do_matching_cond_tree)
next
  show "clause_shape seg \<and> drop (token_index p) (tokens p) = seg @ u # rest
        \<and> token u \<noteq> sym_and \<and> token u \<noteq> sym_or \<longrightarrow>
      (\<exists>p'. do_matching_cond p = Inr p' \<and> consumed p p' = seg
           \<and> groups (or_list p') = groups (or_list p) @ spec_condition seg)"
    using do_matching_cond_reads_clause [of seg p u rest] by blast
next
  show "token_index p + 3 < num_tokens p \<and> tok_at p (token_index p + 1) \<noteq> sym_equal \<longrightarrow>
      do_matching_cond p = Inl (fail_at p (token_index p + 1) ExpectedEqual)
      \<and> do_or_cond p = Inl (fail_at p (token_index p + 1) ExpectedEqual)
      \<and> (or_list p \<noteq> [] \<and> last (or_list p) \<noteq> None \<longrightarrow>
           do_and_cond p = Inl (fail_at p (token_index p + 1) ExpectedEqual))"
    using do_or_cond_not_equal [of p] do_and_cond_not_equal [of p]
    by (auto simp: do_matching_cond_def)
next
  show "clause_shape pre \<and> drop (token_index p) (tokens p) = pre @ c # l # ope # r # t # post
        \<and> (token c = sym_and \<or> token c = sym_or) \<and> token ope \<noteq> sym_equal \<longrightarrow>
      do_matching_cond p = Inl (fail_at p (token_index p + length pre + 2) ExpectedEqual)"
    using do_matching_cond_not_equal_later [of pre p c l ope r t post] by blast
qed

theorem matching_condition_tree_witness:
  "do_matching_cond p_matching
     = Inr (p_matching\<lparr>token_index := 14, or_list :=
         [Some \<lparr>this = item_of t_eq1, left = item_of t_src_ip, right = item_of t_addr,
                and_list = [Some (mk_pred t_dest_port t_eq2 t_80)]\<rparr>,
          Some \<lparr>this = item_of t_eq3, left = item_of t_proto, right = item_of t_tcp,
                and_list = []\<rparr>]\<rparr>)
   \<and> groups [Some \<lparr>this = item_of t_eq1, left = item_of t_src_ip, right = item_of t_addr,
                and_list = [Some (mk_pred t_dest_port t_eq2 t_80)]\<rparr>,
              Some \<lparr>this = item_of t_eq3, left = item_of t_proto, right = item_of t_tcp,
                and_list = []\<rparr>]
     = [[mk_pred t_src_ip t_eq1 t_addr, mk_pred t_dest_port t_eq2 t_80],
        [mk_pred t_proto t_eq3 t_tcp]]
   \<and> clause_shape (take 11 (drop 3 (tokens p_matching)))
   \<and> groups (or_list p_matching) @ spec_condition (take 11 (drop 3 (tokens p_matching)))
     = [[mk_pred t_src_ip t_eq1 t_addr, mk_pred t_dest_port t_eq2 t_80],
        [mk_pred t_proto t_eq3 t_tcp]]
   \<and> token_index p_less + 3 < num_tokens p_less
   \<and> tok_at p_less (token_index p_less + 1) \<noteq> sym_equal
   \<and> do_matching_cond p_less = Inl (SyntaxError ExpectedEqual ''< c SINCE YESTERDAY'')
   \<and> clause_shape (take 3 (drop 3 (tokens p_and_less)))
   \<and> do_matching_cond p_and_less = Inl (SyntaxError ExpectedEqual ''< e SINCE YESTERDAY'')
   \<and> or_list p_and \<noteq> [] \<and> last (or_list p_and) \<noteq> None
   \<and> do_and_cond p_and = Inl (SyntaxError ExpectedEqual ''< e SINCE YESTERDAY'')"
proof -
  let ?ol = "[Some \<lparr>this = item_of t_eq1, left = item_of t_src_ip, right = item_of t_addr,
                and_list = [Some (mk_pred t_dest_port t_eq2 t_80)]\<rparr>,
              Some \<lparr>this = item_of t_eq3, left = item_of t_proto, right = item_of t_tcp,
                and_list = []\<rparr>]"
  let ?r = "p_matching\<lparr>token_index := 14, or_list := ?ol\<rparr>"
  let ?gs = "[[mk_pred t_src_ip t_eq1 t_addr, mk_pred t_dest_port t_eq2 t_80],
         [mk_pred t_proto t_eq3 t_tcp]]"
  have run: "do_matching_cond p_matching = Inr ?r" by code_simp
  have sp: "groups (or_list p_matching) @ spec_condition (consumed p_matching ?r) = ?gs"
    by code_simp
  note tree = matching_condition_tree [where p = p_matching and p' = ?r,
      THEN conjunct1, THEN mp, OF run]
  from tree have "groups (or_list ?r)
      = groups (or_list p_matching) @ spec_condition (consumed p_matching ?r)"
    by blast
  also note sp
  finally have g: "groups ?ol = ?gs" by simp

  let ?seg = "take 11 (drop 3 (tokens p_matching))"
  have sh: "clause_shape ?seg" by code_simp
  have "drop (token_index p_matching) (tokens p_matching)
      = ?seg @ (tokens p_matching ! 14) # drop 15 (tokens p_matching)"
    "token (tokens p_matching ! 14) \<noteq> sym_and" "token (tokens p_matching ! 14) \<noteq> sym_or"
    by code_simp+
  with sh have "clause_shape ?seg
      \<and> drop (token_index p_matching) (tokens p_matching)
          = ?seg @ (tokens p_matching ! 14) # drop 15 (tokens p_matching)
      \<and> token (tokens p_matching ! 14) \<noteq> sym_and \<and> token (tokens p_matching ! 14) \<noteq> sym_or"
    by (intro conjI)
  note matching_condition_tree [where p = p_matching and seg = ?seg,
      THEN conjunct2, THEN conjunct1, THEN mp, OF this]
  with run have c: "groups (or_list p_matching) @ spec_condition ?seg = ?gs"
    using g by auto

  have h: "token_index p_less + 3 < num_tokens p_less"
    "tok_at p_less (token_index p_less + 1) \<noteq> sym_equal"
    by code_simp+
  have f: "fail_at p_less (token_index p_less + 1) ExpectedEqual
      = SyntaxError ExpectedEqual ''< c SINCE YESTERDAY''"
    by code_simp
  from h have "token_index p_less + 3 < num_tokens p_less
      \<and> tok_at p_less (token_index p_less + 1) \<noteq> sym_equal" by (rule conjI)
  note matching_condition_tree [where p = p_less,
      THEN conjunct2, THEN conjunct2, THEN conjunct1, THEN mp, OF this, THEN conjunct1]
  with f have l1: "do_matching_cond p_less
      = Inl (SyntaxError ExpectedEqual ''< c SINCE YESTERDAY'')"
    by simp

  let ?ts = "tokens p_and_less"
  let ?pre = "take 3 (drop 3 ?ts)"
  have sh2: "clause_shape ?pre" by code_simp
  have "drop (token_index p_and_less) ?ts
      = ?pre @ ?ts ! 6 # ?ts ! 7 # ?ts ! 8 # ?ts ! 9 # ?ts ! 10 # drop 11 ?ts"
    "token (?ts ! 6) = sym_and \<or> token (?ts ! 6) = sym_or" "token (?ts ! 8) \<noteq> sym_equal"
    by code_simp+
  with sh2 have "clause_shape ?pre
      \<and> drop (token_index p_and_less) ?ts
          = ?pre @ ?ts ! 6 # ?ts ! 7 # ?ts ! 8 # ?ts ! 9 # ?ts ! 10 # drop 11 ?ts
      \<and> (token (?ts ! 6) = sym_and \<or> token (?ts ! 6) = sym_or)
      \<and> token (?ts ! 8) \<noteq> sym_equal"
    by (intro conjI)
  note matching_condition_tree [where p = p_and_less and pre = ?pre,
      THEN conjunct2, THEN conjunct2, THEN conjunct2, THEN mp, OF this]
  moreover have "fail_at p_and_less (token_index p_and_less + length ?pre + 2) ExpectedEqual
      = SyntaxError ExpectedEqual ''< e SINCE YESTERDAY''"
    by code_simp
  ultimately have l2: "do_matching_cond p_and_less
      = Inl (SyntaxError ExpectedEqual ''< e SINCE YESTERDAY'')"
    by simp

  have h3: "token_index p_and + 3 < num_tokens p_and
      \<and> tok_at p_and (token_index p_and + 1) \<noteq> sym_equal"
    by code_simp
  have o: "or_list p_and \<noteq> []" "last (or_list p_and) \<noteq> None" by code_simp+
  then have "or_list p_and \<noteq> [] \<and> last (or_list p_and) \<noteq> None" by (rule conjI)
  note matching_condition_tree [where p = p_and,
      THEN conjunct2, THEN conjunct2, THEN conjunct1, THEN mp, OF h3,
      THEN conjunct2, THEN conjunct2, THEN mp, OF this]
  moreover have "fail_at p_and (token_index p_and + 1) ExpectedEqual
      = SyntaxError ExpectedEqual ''< e SINCE YESTERDAY''"
    by code_simp
  ultimately have l3: "do_and_cond p_and
      = Inl (SyntaxError ExpectedEqual ''< e SINCE YESTERDAY'')"
    by simp
  from run g sh c h l1 sh2 l2 o l3 show ?thesis by (intro conjI)
qed

text \<open>
  Claim C8 as stated gives that error for every predicate whose comparison is not an
  equal sign. When fewer than two tokens follow the comparison token, the check for a
  clause cut short comes first.
\<close>

theorem comparison_cut_short_counterexample:
  "parse env0 ''FIND a MATCHING b < c''
     = Some (ParserError (SyntaxError MatchingCutShort ''< c''))"
  by code_simp


section \<open>Sub-commands after a pipe\<close>

text \<open>
  A statement with a pipe whose last word stands after the pipe, as the lexer
  tokenizes it.
\<close>

definition q_piped :: string where
  "q_piped = ''FIND a SINCE 5 | AGO''"

definition tokens_piped :: "lexer_token list" where
  "tokens_piped =
     [tk ''command'' sym_find ''FIND'' 0, tk ''ident'' sym_none ''a'' 5,
      tk ''temporal'' sym_since ''SINCE'' 7, tk ''int'' sym_none ''5'' 13,
      tk ''pipe'' sym_pipe ''|'' 15, tk ''relative'' sym_ago ''AGO'' 17]"

text \<open>
  Claim C9 says that the parser splits the tokens at the first pipe before it drives
  the grammar, parses the primary statement from the tokens before the pipe only, as
  the unpiped form, and carries the tokens after the pipe unparsed. \<^verbatim>\<open>parser()\<close> does
  compute the two slices (\<^verbatim>\<open>cmd = cmd[:i-1]\<close>, \<^verbatim>\<open>cmd2 = cmd[i+1:]\<close>, under the comment
  "chop 'em so they can get processed separately"), but it then drops both
  (\<^verbatim>\<open>_ = cmd\<close>, \<^verbatim>\<open>_ = cmd2\<close>), sets \<^verbatim>\<open>num_tokens = len(p.tokens)\<close> and runs
  \<^verbatim>\<open>do_syntax\<close> on the whole token list. On \<^verbatim>\<open>FIND a SINCE 5 | AGO\<close> the slices are
  FIND a SINCE and AGO; the grammar reads the pipe as the unit of \<^verbatim>\<open>5 <unit> AGO\<close> and
  the word AGO after the pipe as part of the primary statement, and the parse succeeds
  with the cursor behind AGO. The unpiped forms do not parse: on the tokens before the
  pipe, \<^verbatim>\<open>FIND a SINCE 5\<close>, and on the slice \<^verbatim>\<open>cmd\<close>, \<^verbatim>\<open>FIND a SINCE\<close>, the run ends in
  an index out of range.
\<close>

theorem parse_reads_past_the_pipe:
  "lexer q_piped = Inr tokens_piped
   \<and> pipe_split tokens_piped 0 tokens_piped
       = Inr ([tk ''command'' sym_find ''FIND'' 0, tk ''ident'' sym_none ''a'' 5,
               tk ''temporal'' sym_since ''SINCE'' 7],
              [tk ''relative'' sym_ago ''AGO'' 17])
   \<and> parse env0 q_piped
       = Some (Parsed ((new_Parser q_piped tokens_piped)
           \<lparr>token_index := 6, fields_list := [''a''], field_aliases := [''a''],
            time_from := 1700000000123456790, time_to := 1700000000123456791,
            now_calls := 3\<rparr>))
   \<and> parse env ''FIND a SINCE 5'' = Some (ParserError Panic)
   \<and> parse env ''FIND a SINCE'' = Some (ParserError Panic)"
proof -
  have "lexer q_piped = Inr tokens_piped" by code_simp
  moreover have "pipe_split tokens_piped 0 tokens_piped
       = Inr ([tk ''command'' sym_find ''FIND'' 0, tk ''ident'' sym_none ''a'' 5,
               tk ''temporal'' sym_since ''SINCE'' 7],
              [tk ''relative'' sym_ago ''AGO'' 17])"
    by code_simp
  moreover have "parse env0 q_piped
       = Some (Parsed ((new_Parser q_piped tokens_piped)
           \<lparr>token_index := 6, fields_list := [''a''], field_aliases := [''a''],
            time_from := 1700000000123456790, time_to := 1700000000123456791,
            now_calls := 3\<rparr>))"
    by code_simp
  moreover have "parse env ''FIND a SINCE 5'' = Some (ParserError Panic)" by code_simp
  moreover have "parse env ''FIND a SINCE'' = Some (ParserError Panic)" by code_simp
  ultimately show ?thesis by simp
qed


end
